theory Spec2Isabelle
  imports Main "HOL-Library.Word" "HOL-Library.Monad_Syntax"
begin

section \<open>ObjectSlot: a generational slot pool with reference-counted handles\<close>

text \<open>
  The development embeds \<^verbatim>\<open>SlotHandle.h\<close>, \<^verbatim>\<open>ObjectSlotBase.h\<close>, \<^verbatim>\<open>ObjectSlot.h\<close> and the
  \<^verbatim>\<open>SlotRef\<close> class of \<^verbatim>\<open>WeakSlotPtr.h\<close>.

  \<^item> \<^verbatim>\<open>uint32_t\<close> is \<open>32 word\<close>; \<^verbatim>\<open>size_t\<close> is \<open>64 word\<close> (a 64-bit target). Arithmetic wraps.
  \<^item> A \<^verbatim>\<open>std::vector\<close> is a list, \<^verbatim>\<open>size()\<close> its length; \<^verbatim>\<open>std::queue\<close> is a list whose head
    is the front.
  \<^item> A \<^verbatim>\<open>std::function<void()>\<close> is identified by a number (\<open>hook\<close>); an empty one is \<open>None\<close>.
    What calling it does to the pool is a parameter of the model (\<open>hook_sem\<close>), so a callback
    may re-enter the pool. Every call is appended to the field \<open>fired\<close>, which exists only in
    the model.
  \<^item> An operation that may not return normally (the \<^verbatim>\<open>assert\<close> of \<^verbatim>\<open>ReleaseRef\<close> failing, a
    callback that does not return, a loop that never ends) has an \<open>option\<close> result, and
    \<open>None\<close> stands for "does not return".
  \<^item> Indexing a vector out of range is undefined behaviour in C++. The model then reads the
    unspecified value \<open>xs ! i\<close> and writes nothing; the predicate \<open>wf_pool\<close> describes the states
    in which every access of the code is in range.
\<close>

subsection \<open>SlotHandle.h\<close>

type_synonym u32 = "32 word"
type_synonym size_t = "64 word"

record SlotHandle =
  index :: u32
  generation :: u32

definition INVALID_INDEX :: u32 where
  "INVALID_INDEX = 0xFFFFFFFF"

definition Invalid :: SlotHandle where
  "Invalid = \<lparr>index = INVALID_INDEX, generation = 0\<rparr>"

definition SlotHandle_IsValid :: "SlotHandle \<Rightarrow> bool" where
  "SlotHandle_IsValid h = (index h \<noteq> INVALID_INDEX)"

subsection \<open>ObjectSlotBase.h: the pool\<close>

type_synonym hook = nat

record 'a pool =
  m_data :: "'a list"
  m_generations :: "u32 list"
  m_alive :: "bool list"
  m_refCounts :: "u32 list"
  m_onDestroyCallbacks :: "hook option list"
  m_freeList :: "u32 list"
  m_count :: size_t
  m_maxCapacity :: size_t
  fired :: "(nat \<times> hook) list"

type_synonym 'a hook_sem = "hook \<Rightarrow> 'a pool \<Rightarrow> 'a pool option"

text \<open>The default-constructed pool.\<close>

definition empty_pool :: "'a pool" where
  "empty_pool = \<lparr>m_data = [], m_generations = [], m_alive = [], m_refCounts = [],
     m_onDestroyCallbacks = [], m_freeList = [], m_count = 0, m_maxCapacity = 0, fired = []\<rparr>"

text \<open>A callback that does not touch the pool.\<close>

definition quiet :: "'a hook_sem" where
  "quiet cb s = Some s"

text \<open>Calling the callback stored at slot \<open>i\<close>: the call is recorded, then the callback runs.\<close>

definition invoke :: "'a hook_sem \<Rightarrow> nat \<Rightarrow> hook \<Rightarrow> 'a pool \<Rightarrow> 'a pool option" where
  "invoke run i cb s = run cb (s\<lparr>fired := fired s @ [(i, cb)]\<rparr>)"

definition IsValidHandle :: "'a pool \<Rightarrow> SlotHandle \<Rightarrow> bool" where
  "IsValidHandle s handle =
     (if unat (index handle) \<ge> length (m_data s) then False
      else if \<not> m_alive s ! unat (index handle) then False
      else if m_generations s ! unat (index handle) \<noteq> generation handle then False
      else True)"

text \<open>
  \<^verbatim>\<open>Get\<close> returns \<^verbatim>\<open>&m_data[handle.index]\<close> or \<^verbatim>\<open>nullptr\<close>. A pointer into \<^verbatim>\<open>m_data\<close> is
  modelled by the position it points to, \<^verbatim>\<open>nullptr\<close> by \<open>None\<close>; \<open>deref\<close> reads through it.
\<close>

definition Get :: "'a pool \<Rightarrow> SlotHandle \<Rightarrow> nat option" where
  "Get s handle =
     (if \<not> IsValidHandle s handle then None
      else Some (unat (index handle)))"

definition deref :: "'a pool \<Rightarrow> nat \<Rightarrow> 'a" where
  "deref s p = m_data s ! p"

definition GetRefCount :: "'a pool \<Rightarrow> SlotHandle \<Rightarrow> u32" where
  "GetRefCount s handle =
     (if \<not> IsValidHandle s handle then 0
      else m_refCounts s ! unat (index handle))"

definition Count :: "'a pool \<Rightarrow> size_t" where
  "Count s = m_count s"

definition Capacity :: "'a pool \<Rightarrow> nat" where
  "Capacity s = length (m_data s)"

definition SetMaxCapacity :: "size_t \<Rightarrow> 'a pool \<Rightarrow> 'a pool" where
  "SetMaxCapacity maxCapacity s = s\<lparr>m_maxCapacity := maxCapacity\<rparr>"


definition CanCreate :: "'a pool \<Rightarrow> bool" where
  "CanCreate s =
     (if m_maxCapacity s = 0 then True
      else m_count s < m_maxCapacity s)"

text \<open>
  \<^verbatim>\<open>ForEach\<close>: the visitor receives the handle of each live slot and a reference to its
  element, which it may overwrite; it is a function from the handle and the old element to
  the new one. The loop runs over the positions \<open>i\<close>, \<open>i + 1\<close>, ... below \<^verbatim>\<open>m_data.size()\<close>,
  which the visitor does not change; \<open>k\<close> counts the rounds that are left.
\<close>

fun ForEach_loop :: "(SlotHandle \<Rightarrow> 'a \<Rightarrow> 'a) \<Rightarrow> nat \<Rightarrow> nat \<Rightarrow> 'a pool \<Rightarrow> 'a pool" where
  "ForEach_loop func 0 i s = s"
| "ForEach_loop func (Suc k) i s =
     ForEach_loop func k (Suc i)
       (if m_alive s ! i
        then s\<lparr>m_data := (m_data s)
               [i := func \<lparr>index = of_nat i, generation = m_generations s ! i\<rparr> (m_data s ! i)]\<rparr>
        else s)"

definition ForEach :: "(SlotHandle \<Rightarrow> 'a \<Rightarrow> 'a) \<Rightarrow> 'a pool \<Rightarrow> 'a pool" where
  "ForEach func s = ForEach_loop func (length (m_data s)) 0 s"

text \<open>
  The loop of \<^verbatim>\<open>Clear\<close> reads \<^verbatim>\<open>m_data.size()\<close> again before every round and calls the
  callbacks while the vectors are still in place, so with a callback that grows the pool it
  need not end.
\<close>

partial_function (option) Clear_loop :: "'a hook_sem \<Rightarrow> nat \<Rightarrow> 'a pool \<Rightarrow> 'a pool option" where
  "Clear_loop run i s =
     (if i < length (m_data s) then
        (if m_alive s ! i then
           (case m_onDestroyCallbacks s ! i of
              Some cb \<Rightarrow> Option.bind (invoke run i cb s) (Clear_loop run (Suc i))
            | None \<Rightarrow> Clear_loop run (Suc i) s)
         else Clear_loop run (Suc i) s)
      else Some s)"

definition Clear :: "'a hook_sem \<Rightarrow> 'a pool \<Rightarrow> 'a pool option" where
  "Clear run s =
     Option.bind (Clear_loop run 0 s)
       (\<lambda>s1. Some (s1\<lparr>m_data := [], m_generations := [], m_alive := [], m_refCounts := [],
                      m_onDestroyCallbacks := [], m_freeList := [], m_count := 0\<rparr>))"

definition Reserve :: "nat \<Rightarrow> 'a pool \<Rightarrow> 'a pool" where
  "Reserve capacity s = s"

text \<open>\<^verbatim>\<open>std::vector::resize\<close>: cut, or fill up with the default value.\<close>

definition resize :: "nat \<Rightarrow> 'b \<Rightarrow> 'b list \<Rightarrow> 'b list" where
  "resize n d xs = take n xs @ replicate (n - length xs) d"

text \<open>The first loop of \<^verbatim>\<open>ShrinkToFit\<close>, started at \<^verbatim>\<open>newSize = m_data.size()\<close>.\<close>

fun trailing_dead :: "bool list \<Rightarrow> nat \<Rightarrow> nat" where
  "trailing_dead al 0 = 0"
| "trailing_dead al (Suc n) = (if \<not> al ! n then trailing_dead al n else Suc n)"

text \<open>The second loop: the queue is emptied into \<^verbatim>\<open>newFreeList\<close>.\<close>

fun rebuild_freeList :: "nat \<Rightarrow> u32 list \<Rightarrow> u32 list \<Rightarrow> u32 list" where
  "rebuild_freeList newSize [] newFreeList = newFreeList"
| "rebuild_freeList newSize (idx # q) newFreeList =
     rebuild_freeList newSize q (if unat idx < newSize then newFreeList @ [idx] else newFreeList)"

definition ShrinkToFit :: "'a pool \<Rightarrow> 'a pool" where
  "ShrinkToFit s =
     (let newSize = trailing_dead (m_alive s) (length (m_data s)) in
      if newSize = length (m_data s) then s
      else s\<lparr>m_data := take newSize (m_data s),
             m_generations := resize newSize 0 (m_generations s),
             m_alive := resize newSize False (m_alive s),
             m_refCounts := resize newSize 0 (m_refCounts s),
             m_onDestroyCallbacks := resize newSize None (m_onDestroyCallbacks s),
             m_freeList := rebuild_freeList newSize (m_freeList s) []\<rparr>)"

definition AllocateSlot :: "'a \<Rightarrow> 'a pool \<Rightarrow> SlotHandle \<times> 'a pool" where
  "AllocateSlot obj s =
     (case
        (case m_freeList s of
           idx # rest \<Rightarrow>
             (let i = unat idx in
              (\<lparr>index = idx, generation = m_generations s ! i\<rparr>,
               s\<lparr>m_freeList := rest,
                 m_data := (m_data s)[i := obj],
                 m_alive := (m_alive s)[i := True],
                 m_refCounts := (m_refCounts s)[i := 0],
                 m_onDestroyCallbacks := (m_onDestroyCallbacks s)[i := None]\<rparr>))
         | [] \<Rightarrow>
             (\<lparr>index = of_nat (length (m_data s)), generation = 0\<rparr>,
              s\<lparr>m_data := m_data s @ [obj],
                m_generations := m_generations s @ [0],
                m_alive := m_alive s @ [True],
                m_refCounts := m_refCounts s @ [0],
                m_onDestroyCallbacks := m_onDestroyCallbacks s @ [None]\<rparr>))
      of (handle, s') \<Rightarrow> (handle, s'\<lparr>m_count := m_count s' + 1\<rparr>))"

text \<open>
  \<^verbatim>\<open>RemoveInternal\<close>: the callback is called first and its entry is set to \<^verbatim>\<open>nullptr\<close> when it
  has returned; the remaining writes go to the state the callback left.
\<close>

definition RemoveInternal :: "'a hook_sem \<Rightarrow> SlotHandle \<Rightarrow> 'a pool \<Rightarrow> 'a pool option" where
  "RemoveInternal run handle s =
     (let i = unat (index handle) in
      Option.bind
        (case m_onDestroyCallbacks s ! i of
           Some cb \<Rightarrow>
             Option.bind (invoke run i cb s)
               (\<lambda>s'. Some (s'\<lparr>m_onDestroyCallbacks := (m_onDestroyCallbacks s')[i := None]\<rparr>))
         | None \<Rightarrow> Some s)
        (\<lambda>s1. Some (s1\<lparr>m_alive := (m_alive s1)[i := False],
                       m_generations := (m_generations s1)[i := m_generations s1 ! i + 1],
                       m_refCounts := (m_refCounts s1)[i := 0],
                       m_freeList := m_freeList s1 @ [index handle],
                       m_count := m_count s1 - 1\<rparr>)))"

definition AddRef :: "SlotHandle \<Rightarrow> 'a pool \<Rightarrow> 'a pool" where
  "AddRef handle s =
     (if IsValidHandle s handle then
        s\<lparr>m_refCounts := (m_refCounts s)[unat (index handle) := m_refCounts s ! unat (index handle) + 1]\<rparr>
      else s)"

text \<open>\<^verbatim>\<open>ReleaseRef\<close>, with the \<^verbatim>\<open>assert\<close> active: a count of 0 on a valid handle aborts.\<close>

definition ReleaseRef :: "'a hook_sem \<Rightarrow> SlotHandle \<Rightarrow> 'a pool \<Rightarrow> 'a pool option" where
  "ReleaseRef run handle s =
     (if IsValidHandle s handle then
        (let i = unat (index handle) in
         if \<not> m_refCounts s ! i > 0 then None
         else
           (let s1 = s\<lparr>m_refCounts := (m_refCounts s)[i := m_refCounts s ! i - 1]\<rparr> in
            if m_refCounts s1 ! i = 0 then RemoveInternal run handle s1
            else Some s1))
      else Some s)"

definition SetOnDestroyCallback :: "SlotHandle \<Rightarrow> hook option \<Rightarrow> 'a pool \<Rightarrow> 'a pool" where
  "SetOnDestroyCallback handle callback s =
     (if IsValidHandle s handle then
        s\<lparr>m_onDestroyCallbacks := (m_onDestroyCallbacks s)[unat (index handle) := callback]\<rparr>
      else s)"

definition ClearOnDestroyCallback :: "SlotHandle \<Rightarrow> 'a pool \<Rightarrow> 'a pool" where
  "ClearOnDestroyCallback handle s =
     (if IsValidHandle s handle then
        s\<lparr>m_onDestroyCallbacks := (m_onDestroyCallbacks s)[unat (index handle) := None]\<rparr>
      else s)"

text \<open>
  The states in which the five vectors have one length and the free list holds positions
  of dead slots only, each once: the states the code keeps to as long as no callback
  re-enters it.
\<close>

definition wf_pool :: "'a pool \<Rightarrow> bool" where
  "wf_pool s \<longleftrightarrow>
     length (m_generations s) = length (m_data s) \<and>
     length (m_alive s) = length (m_data s) \<and>
     length (m_refCounts s) = length (m_data s) \<and>
     length (m_onDestroyCallbacks s) = length (m_data s) \<and>
     distinct (m_freeList s) \<and>
     list_all (\<lambda>idx. unat idx < length (m_data s) \<and> \<not> m_alive s ! unat idx) (m_freeList s)"

subsection \<open>WeakSlotPtr.h: the class SlotRef\<close>

text \<open>
  A \<^verbatim>\<open>SlotRef\<close> object lives at an address; \<^verbatim>\<open>this != &other\<close> compares addresses. The world
  is the store of \<^verbatim>\<open>SlotRef\<close> objects together with the store of pools; the pointer
  \<^verbatim>\<open>m_slot\<close> is the address of a pool, or \<open>None\<close> for \<^verbatim>\<open>nullptr\<close>.
\<close>

type_synonym addr = nat
type_synonym pool_addr = nat

record SlotRef =
  m_handle :: SlotHandle
  m_slot :: "pool_addr option"

record 'a world =
  refs :: "addr \<Rightarrow> SlotRef"
  pools :: "pool_addr \<Rightarrow> 'a pool"

text \<open>\<^verbatim>\<open>SlotRef()\<close> and \<^verbatim>\<open>SlotRef(nullptr)\<close>.\<close>

definition SlotRef_empty :: SlotRef where
  "SlotRef_empty = \<lparr>m_handle = Invalid, m_slot = None\<rparr>"

definition SlotRef_default :: "addr \<Rightarrow> 'a world \<Rightarrow> 'a world" where
  "SlotRef_default this w = w\<lparr>refs := (refs w)(this := SlotRef_empty)\<rparr>"

text \<open>\<^verbatim>\<open>SlotRef(SlotHandle handle, ObjectSlotBase<T>* slot)\<close>.\<close>

definition SlotRef_bind :: "addr \<Rightarrow> SlotHandle \<Rightarrow> pool_addr option \<Rightarrow> 'a world \<Rightarrow> 'a world" where
  "SlotRef_bind this handle slot w =
     w\<lparr>refs := (refs w)(this := \<lparr>m_handle = handle, m_slot = slot\<rparr>)\<rparr>"

definition IsValid :: "addr \<Rightarrow> 'a world \<Rightarrow> bool" where
  "IsValid this w =
     (case m_slot (refs w this) of
        None \<Rightarrow> False
      | Some p \<Rightarrow> IsValidHandle (pools w p) (m_handle (refs w this)))"

text \<open>
  The tail shared by the copy constructor and the copy assignment:
  \<^verbatim>\<open>if (m_slot != nullptr && m_slot->IsValidHandle(m_handle)) m_slot->AddRef(m_handle);\<close>
\<close>

definition AddRef_if_valid :: "addr \<Rightarrow> 'a world \<Rightarrow> 'a world" where
  "AddRef_if_valid this w =
     (case m_slot (refs w this) of
        None \<Rightarrow> w
      | Some p \<Rightarrow>
          if IsValidHandle (pools w p) (m_handle (refs w this))
          then w\<lparr>pools := (pools w)(p := AddRef (m_handle (refs w this)) (pools w p))\<rparr>
          else w)"

text \<open>\<^verbatim>\<open>SlotRef(const SlotRef& other)\<close>, constructing at \<open>this\<close>.\<close>

definition SlotRef_copy :: "addr \<Rightarrow> addr \<Rightarrow> 'a world \<Rightarrow> 'a world" where
  "SlotRef_copy this other w =
     AddRef_if_valid this
       (w\<lparr>refs := (refs w)(this := \<lparr>m_handle = m_handle (refs w other), m_slot = m_slot (refs w other)\<rparr>)\<rparr>)"

definition Release :: "'a hook_sem \<Rightarrow> addr \<Rightarrow> 'a world \<Rightarrow> 'a world option" where
  "Release run this w =
     (case m_slot (refs w this) of
        None \<Rightarrow> Some w
      | Some p \<Rightarrow>
          if IsValidHandle (pools w p) (m_handle (refs w this))
          then Option.bind (ReleaseRef run (m_handle (refs w this)) (pools w p))
                 (\<lambda>s'. Some (w\<lparr>pools := (pools w)(p := s')\<rparr>))
          else Some w)"

text \<open>\<^verbatim>\<open>operator=(const SlotRef& other)\<close>.\<close>

definition copy_assign :: "'a hook_sem \<Rightarrow> addr \<Rightarrow> addr \<Rightarrow> 'a world \<Rightarrow> 'a world option" where
  "copy_assign run this other w =
     (if this \<noteq> other then
        Option.bind (Release run this w)
          (\<lambda>w1. Some (AddRef_if_valid this
             (w1\<lparr>refs := (refs w1)(this := \<lparr>m_handle = m_handle (refs w1 other),
                                              m_slot = m_slot (refs w1 other)\<rparr>)\<rparr>)))
      else Some w)"

text \<open>\<^verbatim>\<open>SlotRef(SlotRef&& other)\<close>, constructing at \<open>this\<close>.\<close>

definition SlotRef_move :: "addr \<Rightarrow> addr \<Rightarrow> 'a world \<Rightarrow> 'a world" where
  "SlotRef_move this other w =
     (let w1 = w\<lparr>refs := (refs w)(this := \<lparr>m_handle = m_handle (refs w other),
                                            m_slot = m_slot (refs w other)\<rparr>)\<rparr>
      in w1\<lparr>refs := (refs w1)(other := \<lparr>m_handle = Invalid, m_slot = None\<rparr>)\<rparr>)"

text \<open>\<^verbatim>\<open>operator=(SlotRef&& other)\<close>.\<close>

definition move_assign :: "'a hook_sem \<Rightarrow> addr \<Rightarrow> addr \<Rightarrow> 'a world \<Rightarrow> 'a world option" where
  "move_assign run this other w =
     (if this \<noteq> other then
        Option.bind (Release run this w)
          (\<lambda>w1.
             (let w2 = w1\<lparr>refs := (refs w1)(this := \<lparr>m_handle = m_handle (refs w1 other),
                                                    m_slot = m_slot (refs w1 other)\<rparr>)\<rparr>
              in Some (w2\<lparr>refs := (refs w2)(other := \<lparr>m_handle = Invalid, m_slot = None\<rparr>)\<rparr>)))
      else Some w)"

definition Reset :: "'a hook_sem \<Rightarrow> addr \<Rightarrow> 'a world \<Rightarrow> 'a world option" where
  "Reset run this w =
     Option.bind (Release run this w)
       (\<lambda>w1. Some (w1\<lparr>refs := (refs w1)(this := \<lparr>m_handle = Invalid, m_slot = None\<rparr>)\<rparr>))"

text \<open>\<^verbatim>\<open>operator=(std::nullptr_t)\<close> and the destructor.\<close>

definition assign_nullptr :: "'a hook_sem \<Rightarrow> addr \<Rightarrow> 'a world \<Rightarrow> 'a world option" where
  "assign_nullptr run this w = Reset run this w"

definition SlotRef_destroy :: "'a hook_sem \<Rightarrow> addr \<Rightarrow> 'a world \<Rightarrow> 'a world option" where
  "SlotRef_destroy run this w = Release run this w"

definition SlotRef_Get :: "addr \<Rightarrow> 'a world \<Rightarrow> nat option" where
  "SlotRef_Get this w =
     (if \<not> IsValid this w then None
      else Get (pools w (the (m_slot (refs w this)))) (m_handle (refs w this)))"

definition UseCount :: "addr \<Rightarrow> 'a world \<Rightarrow> u32" where
  "UseCount this w =
     (if \<not> IsValid this w then 0
      else GetRefCount (pools w (the (m_slot (refs w this)))) (m_handle (refs w this)))"

definition GetHandle :: "addr \<Rightarrow> 'a world \<Rightarrow> SlotHandle" where
  "GetHandle this w = m_handle (refs w this)"

definition SetOnDestroy :: "addr \<Rightarrow> hook option \<Rightarrow> 'a world \<Rightarrow> 'a world" where
  "SetOnDestroy this callback w =
     (case m_slot (refs w this) of
        None \<Rightarrow> w
      | Some p \<Rightarrow>
          if IsValidHandle (pools w p) (m_handle (refs w this))
          then w\<lparr>pools := (pools w)(p := SetOnDestroyCallback (m_handle (refs w this)) callback (pools w p))\<rparr>
          else w)"

definition ClearOnDestroy :: "addr \<Rightarrow> 'a world \<Rightarrow> 'a world" where
  "ClearOnDestroy this w =
     (case m_slot (refs w this) of
        None \<Rightarrow> w
      | Some p \<Rightarrow>
          if IsValidHandle (pools w p) (m_handle (refs w this))
          then w\<lparr>pools := (pools w)(p := ClearOnDestroyCallback (m_handle (refs w this)) (pools w p))\<rparr>
          else w)"

definition SlotRef_eq :: "addr \<Rightarrow> addr \<Rightarrow> 'a world \<Rightarrow> bool" where
  "SlotRef_eq this other w =
     (m_handle (refs w this) = m_handle (refs w other) \<and> m_slot (refs w this) = m_slot (refs w other))"

subsection \<open>ObjectSlot.h\<close>

text \<open>
  \<^verbatim>\<open>ObjectSlot::Create\<close> on the pool at address \<open>this\<close>. Its result type \<^verbatim>\<open>SlotPtr<T>\<close> is declared
  in a header that is not part of the sources; the comments of \<^verbatim>\<open>Create\<close> call the result a
  \<^verbatim>\<open>SlotRef\<close>, and the two constructors used are those of \<^verbatim>\<open>SlotRef\<close>. \<open>Create\<close> is the
  member function on the pool, \<open>Create_at\<close> stores the returned value at \<open>dst\<close>.
\<close>

definition Create :: "pool_addr \<Rightarrow> 'a \<Rightarrow> 'a pool \<Rightarrow> SlotRef \<times> 'a pool" where
  "Create this obj s =
     (if \<not> CanCreate s then (SlotRef_empty, s)
      else
        (case AllocateSlot obj s of
           (handle, s1) \<Rightarrow> (\<lparr>m_handle = handle, m_slot = Some this\<rparr>, AddRef handle s1)))"

definition Create_at :: "pool_addr \<Rightarrow> 'a \<Rightarrow> addr \<Rightarrow> 'a world \<Rightarrow> 'a world" where
  "Create_at p obj dst w =
     (case Create p obj (pools w p) of
        (r, s') \<Rightarrow> w\<lparr>refs := (refs w)(dst := r), pools := (pools w)(p := s')\<rparr>)"

subsection \<open>Weak references\<close>

text \<open>Modelled from the spec: the class \<^verbatim>\<open>WeakSlotRef\<close> is only forward-declared in
  \<^verbatim>\<open>WeakSlotPtr.h\<close> and \<^verbatim>\<open>SlotRef::GetWeak\<close> is declared without a body; their definitions are
  not part of the sources. Following section 4.3 of the specification, a weak reference
  holds a pool pointer and a handle and takes no part in reference counting.
\<close>

record WeakSlotRef =
  w_handle :: SlotHandle
  w_slot :: "pool_addr option"

text \<open>Modelled from the spec: \<^verbatim>\<open>SlotRef::GetWeak\<close>, "constructed only by asking a StrongRef to
  derive one": the weak reference takes the pool pointer and the handle of the strong one.
\<close>

definition GetWeak :: "addr \<Rightarrow> 'a world \<Rightarrow> WeakSlotRef" where
  "GetWeak this w = \<lparr>w_handle = m_handle (refs w this), w_slot = m_slot (refs w this)\<rparr>"

text \<open>Modelled from the spec: \<open>upgrade() -> Option<StrongRef>\<close>, "if the pool pointer is
  non-null and \<open>is_valid(handle)\<close> holds, increments the ref-count and returns a bound
  StrongRef; otherwise returns nothing".
\<close>

definition upgrade :: "WeakSlotRef \<Rightarrow> 'a world \<Rightarrow> SlotRef option \<times> 'a world" where
  "upgrade wk w =
     (case w_slot wk of
        None \<Rightarrow> (None, w)
      | Some p \<Rightarrow>
          if IsValidHandle (pools w p) (w_handle wk)
          then (Some \<lparr>m_handle = w_handle wk, m_slot = Some p\<rparr>,
                w\<lparr>pools := (pools w)(p := AddRef (w_handle wk) (pools w p))\<rparr>)
          else (None, w))"

subsection \<open>Vocabulary of the properties\<close>

text \<open>
  The callbacks of the live slots from position \<open>i\<close> on, each with its slot, in increasing
  order of the position: what the specification says \<^verbatim>\<open>Clear\<close> calls.
\<close>

definition alive_hooks_from :: "nat \<Rightarrow> 'a pool \<Rightarrow> (nat \<times> hook) list" where
  "alive_hooks_from i s =
     concat (map (\<lambda>j. if m_alive s ! j
                       then (case m_onDestroyCallbacks s ! j of Some cb \<Rightarrow> [(j, cb)] | None \<Rightarrow> [])
                       else [])
                 [i ..< length (m_data s)])"

text \<open>The state after \<^verbatim>\<open>Clear\<close>: no slot, no free position, no live element.\<close>

definition is_empty_state :: "'a pool \<Rightarrow> bool" where
  "is_empty_state s \<longleftrightarrow>
     Count s = 0 \<and> Capacity s = 0 \<and> m_freeList s = [] \<and> m_generations s = [] \<and>
     m_alive s = [] \<and> m_refCounts s = [] \<and> m_onDestroyCallbacks s = []"

text \<open>
  What \<^verbatim>\<open>RemoveInternal\<close> does to the state \<open>s'\<close> in which the callback has returned.
\<close>

definition after_hook :: "SlotHandle \<Rightarrow> 'a pool \<Rightarrow> 'a pool" where
  "after_hook h s' =
     s'\<lparr>m_onDestroyCallbacks := (m_onDestroyCallbacks s')[unat (index h) := None],
        m_alive := (m_alive s')[unat (index h) := False],
        m_generations := (m_generations s')[unat (index h) := m_generations s' ! unat (index h) + 1],
        m_refCounts := (m_refCounts s')[unat (index h) := 0],
        m_freeList := m_freeList s' @ [index h],
        m_count := m_count s' - 1\<rparr>"

text \<open>
  A list of copy constructions, each a pair of the address of the new reference and the
  address of its source; \<open>copied_from held cs\<close> says that every source is one of \<open>held\<close> or
  was constructed before. \<open>fan_out src xs\<close> are copies of one source to each address in
  \<open>xs\<close>. References are dropped one after the other, each either by \<^verbatim>\<open>Reset()\<close> or by its
  destructor.
\<close>

fun copies :: "(addr \<times> addr) list \<Rightarrow> 'a world \<Rightarrow> 'a world" where
  "copies [] w = w"
| "copies ((dst, src) # cs) w = copies cs (SlotRef_copy dst src w)"

fun copied_from :: "addr list \<Rightarrow> (addr \<times> addr) list \<Rightarrow> bool" where
  "copied_from held [] = True"
| "copied_from held ((dst, src) # cs) = (src \<in> set held \<and> copied_from (dst # held) cs)"

definition fan_out :: "addr \<Rightarrow> addr list \<Rightarrow> (addr \<times> addr) list" where
  "fan_out src xs = map (\<lambda>a. (a, src)) xs"

datatype drop = ByReset addr | ByDestructor addr

fun drop_addr :: "drop \<Rightarrow> addr" where
  "drop_addr (ByReset a) = a"
| "drop_addr (ByDestructor a) = a"

fun drop1 :: "'a hook_sem \<Rightarrow> drop \<Rightarrow> 'a world \<Rightarrow> 'a world option" where
  "drop1 run (ByReset a) w = Reset run a w"
| "drop1 run (ByDestructor a) w = SlotRef_destroy run a w"

fun drops :: "'a hook_sem \<Rightarrow> drop list \<Rightarrow> 'a world \<Rightarrow> 'a world option" where
  "drops run [] w = Some w"
| "drops run (d # ds) w = Option.bind (drop1 run d w) (drops run ds)"

text \<open>
  What the public operations do to one pool. \<open>ACopy h\<close> is the copy of a \<^verbatim>\<open>SlotRef\<close> that
  holds \<open>h\<close>, \<open>ADrop h\<close> the release of one (\<^verbatim>\<open>Reset\<close>, destructor, the first step of an
  assignment), \<open>ASetOnDestroy\<close> and \<open>AClearOnDestroy\<close> the calls through a \<^verbatim>\<open>SlotRef\<close> that holds
  \<open>h\<close>; each of them tests \<^verbatim>\<open>IsValidHandle\<close> before it calls the pool, as \<^verbatim>\<open>SlotRef\<close> does.
  \<open>AWrite h v\<close> assigns \<open>v\<close> through the pointer that \<^verbatim>\<open>Get(h)\<close> returns, if it is not null. The
  operations that only read (\<^verbatim>\<open>IsValidHandle\<close>, \<^verbatim>\<open>GetRefCount\<close>, \<^verbatim>\<open>Count\<close>, \<^verbatim>\<open>Capacity\<close>,
  \<^verbatim>\<open>GetMaxCapacity\<close>, \<^verbatim>\<open>CanCreate\<close>) are no actions.
\<close>

datatype 'a action =
    ACreate 'a
  | ACopy SlotHandle
  | ADrop SlotHandle
  | ASetOnDestroy SlotHandle "hook option"
  | AClearOnDestroy SlotHandle
  | AWrite SlotHandle 'a
  | AForEach "SlotHandle \<Rightarrow> 'a \<Rightarrow> 'a"
  | ASetMaxCapacity size_t
  | AReserve nat
  | AShrinkToFit
  | AClear

fun step :: "'a hook_sem \<Rightarrow> 'a action \<Rightarrow> 'a pool \<Rightarrow> 'a pool option" where
  "step run (ACreate obj) s = Some (snd (Create 0 obj s))"
| "step run (ACopy h) s = Some (if IsValidHandle s h then AddRef h s else s)"
| "step run (ADrop h) s = (if IsValidHandle s h then ReleaseRef run h s else Some s)"
| "step run (ASetOnDestroy h cb) s =
     Some (if IsValidHandle s h then SetOnDestroyCallback h cb s else s)"
| "step run (AClearOnDestroy h) s =
     Some (if IsValidHandle s h then ClearOnDestroyCallback h s else s)"
| "step run (AWrite h v) s =
     Some (case Get s h of Some p \<Rightarrow> s\<lparr>m_data := (m_data s)[p := v]\<rparr> | None \<Rightarrow> s)"
| "step run (AForEach func) s = Some (ForEach func s)"
| "step run (ASetMaxCapacity n) s = Some (SetMaxCapacity n s)"
| "step run (AReserve n) s = Some (Reserve n s)"
| "step run AShrinkToFit s = Some (ShrinkToFit s)"
| "step run AClear s = Clear run s"

fun exec :: "'a hook_sem \<Rightarrow> 'a action list \<Rightarrow> 'a pool \<Rightarrow> 'a pool option" where
  "exec run [] s = Some s"
| "exec run (a # as) s = Option.bind (step run a s) (exec run as)"

text \<open>The drops in a list of actions that are addressed to the slot at position \<open>idx\<close>.\<close>

fun drops_at :: "u32 \<Rightarrow> 'a action \<Rightarrow> bool" where
  "drops_at idx (ADrop h) = (index h = idx)"
| "drops_at idx _ = False"

fun keeps_generations :: "'a action \<Rightarrow> bool" where
  "keeps_generations AShrinkToFit = False"
| "keeps_generations AClear = False"
| "keeps_generations _ = True"

text \<open>
  One round of use of slot 0 of a pool that holds nothing else: an element is created and
  its only reference, which carries generation \<open>k\<close>, is dropped.
\<close>

definition round :: "'a \<Rightarrow> nat \<Rightarrow> 'a action list" where
  "round obj k = [ACreate obj, ADrop \<lparr>index = 0, generation = of_nat k\<rparr>]"

definition rounds :: "'a \<Rightarrow> nat \<Rightarrow> 'a action list" where
  "rounds obj n = concat (map (round obj) [0 ..< n])"

text \<open>
  A callback as a client can write it. It captures the pool, a handle \<open>h\<close> and a counter;
  while the counter is positive it counts down and copies a \<^verbatim>\<open>SlotRef\<close> for \<open>h\<close> into a
  temporary that it drops at once
  (\<^verbatim>\<open>if (n > 0) { --n; SlotRef<T> a(h, &pool); { SlotRef<T> b(a); } }\<close>),
  which at the pool is \<^verbatim>\<open>AddRef(h)\<close> followed by \<^verbatim>\<open>ReleaseRef(h)\<close>.
\<close>

fun reenter :: "SlotHandle \<Rightarrow> nat \<Rightarrow> 'a hook_sem" where
  "reenter h 0 cb s = Some s"
| "reenter h (Suc n) cb s = ReleaseRef (reenter h n) h (AddRef h s)"

text \<open>
  Another callback of a client: callback \<open>c\<close> resets a \<^verbatim>\<open>SlotRef\<close> that holds \<open>h\<close>
  (\<^verbatim>\<open>[&ref]() { ref.Reset(); }\<close>), which at the pool is \<^verbatim>\<open>ReleaseRef(h)\<close> if \<open>h\<close> is valid; all
  other callbacks, also those called by that release, leave the pool alone.
\<close>

fun drop_other :: "hook \<Rightarrow> SlotHandle \<Rightarrow> 'a hook_sem" where
  "drop_other c h cb s =
     (if cb = c then (if IsValidHandle s h then ReleaseRef quiet h s else Some s) else Some s)"

subsection \<open>Scenarios\<close>

text \<open>A world whose pools are all freshly constructed and whose references are all empty.\<close>

definition fresh_world :: "'a world" where
  "fresh_world = \<lparr>refs = (\<lambda>_. SlotRef_empty), pools = (\<lambda>_. empty_pool)\<rparr>"

text \<open>
  Five elements are created, at positions 0 to 4, and the last two are released: positions
  3 and 4 are dead and at the end.
\<close>

definition five_slots :: "nat pool" where
  "five_slots =
     (case Create 0 10 empty_pool of (r0, s0) \<Rightarrow>
      case Create 0 11 s0 of (r1, s1) \<Rightarrow>
      case Create 0 12 s1 of (r2, s2) \<Rightarrow>
      case Create 0 13 s2 of (r3, s3) \<Rightarrow>
      case Create 0 14 s3 of (r4, s4) \<Rightarrow>
        the (ReleaseRef quiet (m_handle r4) (the (ReleaseRef quiet (m_handle r3) s4))))"

text \<open>
  Three elements are created; the first gets callback 7, the second callback 5 and is then
  released, the third gets callback 9 and a second reference.
\<close>

definition hooked_slots :: "nat pool" where
  "hooked_slots =
     (case Create 0 10 empty_pool of (r0, s0) \<Rightarrow>
      case Create 0 11 s0 of (r1, s1) \<Rightarrow>
      case Create 0 12 s1 of (r2, s2) \<Rightarrow>
        AddRef (m_handle r2)
          (SetOnDestroyCallback (m_handle r2) (Some 9)
            (the (ReleaseRef quiet (m_handle r1)
              (SetOnDestroyCallback (m_handle r1) (Some 5)
                (SetOnDestroyCallback (m_handle r0) (Some 7) s2))))))"

text \<open>One element with callback 7 and a single reference.\<close>

definition one_hooked :: "nat pool" where
  "one_hooked =
     (case Create 0 10 empty_pool of (r0, s0) \<Rightarrow> SetOnDestroyCallback (m_handle r0) (Some 7) s0)"

text \<open>Two elements with a single reference each, the first with callback 7, the second with 5.\<close>

definition two_hooked :: "nat pool" where
  "two_hooked =
     (case Create 0 10 empty_pool of (r0, s0) \<Rightarrow>
      case Create 0 11 s0 of (r1, s1) \<Rightarrow>
        SetOnDestroyCallback (m_handle r1) (Some 5) (SetOnDestroyCallback (m_handle r0) (Some 7) s1))"

text \<open>
  An element is created through the reference at address 1 and the pool is cleared: the
  reference at address 1 is left bound to the pool with a handle that is not valid.
\<close>

definition stale_world :: "nat world" where
  "stale_world =
     (case Create_at 0 10 1 fresh_world of w \<Rightarrow>
        w\<lparr>pools := (pools w)(0 := the (Clear quiet (pools w 0)))\<rparr>)"

text \<open>
  The only slot of a pool after it has been used and released, with generation \<open>n\<close>.
\<close>

definition used_once :: "'a \<Rightarrow> nat \<Rightarrow> 'a pool" where
  "used_once obj n = \<lparr>m_data = [obj], m_generations = [of_nat n], m_alive = [False],
     m_refCounts = [0], m_onDestroyCallbacks = [None], m_freeList = [0],
     m_count = 0, m_maxCapacity = 0, fired = []\<rparr>"

section \<open>Auxiliary facts\<close>

subsection \<open>Validity, allocation and reference counting\<close>

lemma IsValidHandle_iff:
  "IsValidHandle s h \<longleftrightarrow> unat (index h) < length (m_data s) \<and> m_alive s ! unat (index h)
      \<and> m_generations s ! unat (index h) = generation h"
  by (auto simp: IsValidHandle_def)

lemma wf_pool_AllocateSlot:
  assumes "wf_pool s"
  shows "wf_pool (snd (AllocateSlot obj s))"
proof (cases "m_freeList s")
  case Nil
  with assms show ?thesis
    by (simp add: wf_pool_def AllocateSlot_def)
next
  case (Cons idx rest)
  from assms Cons have d: "idx \<notin> set rest" "distinct rest"
    and r: "list_all (\<lambda>j. unat j < length (m_data s) \<and> \<not> m_alive s ! unat j) rest"
    and len: "length (m_alive s) = length (m_data s)"
    by (simp_all add: wf_pool_def)
  have "list_all (\<lambda>j. unat j < length (m_data s) \<and> \<not> (m_alive s)[unat idx := True] ! unat j) rest"
    unfolding list_all_iff
  proof
    fix j assume j: "j \<in> set rest"
    with d have "j \<noteq> idx" by auto
    then have "unat j \<noteq> unat idx" by (simp add: word_unat_eq_iff)
    with r j show "unat j < length (m_data s) \<and> \<not> (m_alive s)[unat idx := True] ! unat j"
      by (auto simp: list_all_iff nth_list_update)
  qed
  with assms Cons d show ?thesis
    by (simp add: wf_pool_def AllocateSlot_def Let_def)
qed

lemma AllocateSlot_valid:
  assumes "wf_pool s" "m_freeList s = [] \<longrightarrow> length (m_data s) < 2 ^ 32"
  shows "IsValidHandle (snd (AllocateSlot obj s)) (fst (AllocateSlot obj s))"
proof (cases "m_freeList s")
  case Nil
  with assms(2) have "length (m_data s) < 2 ^ 32" by simp
  then have "unat (of_nat (length (m_data s)) :: u32) = length (m_data s)"
    by (simp add: unat_of_nat)
  with assms(1) Nil show ?thesis
    by (simp add: wf_pool_def AllocateSlot_def IsValidHandle_iff nth_append)
next
  case (Cons idx rest)
  with assms(1) show ?thesis
    by (simp add: wf_pool_def AllocateSlot_def IsValidHandle_iff Let_def)
qed

lemma AllocateSlot_count: "m_count (snd (AllocateSlot obj s)) = m_count s + 1"
  by (simp add: AllocateSlot_def Let_def split: list.splits)

lemma AllocateSlot_maxCapacity: "m_maxCapacity (snd (AllocateSlot obj s)) = m_maxCapacity s"
  by (simp add: AllocateSlot_def Let_def split: list.splits)

lemma AllocateSlot_length:
  "length (m_data (snd (AllocateSlot obj s))) \<le> Suc (length (m_data s))"
  by (simp add: AllocateSlot_def Let_def split: list.splits)

lemma AllocateSlot_keeps_valid:
  assumes "wf_pool s" "IsValidHandle s h"
  shows "IsValidHandle (snd (AllocateSlot obj s)) h"
proof (cases "m_freeList s")
  case Nil
  with assms show ?thesis
    by (simp add: wf_pool_def AllocateSlot_def IsValidHandle_iff nth_append)
next
  case (Cons idx rest)
  with assms show ?thesis
    by (auto simp: wf_pool_def AllocateSlot_def IsValidHandle_iff Let_def nth_list_update)
qed

lemma AddRef_fields [simp]:
  "m_data (AddRef h s) = m_data s" "m_alive (AddRef h s) = m_alive s"
  "m_generations (AddRef h s) = m_generations s" "m_freeList (AddRef h s) = m_freeList s"
  "m_onDestroyCallbacks (AddRef h s) = m_onDestroyCallbacks s"
  "m_count (AddRef h s) = m_count s" "m_maxCapacity (AddRef h s) = m_maxCapacity s"
  "fired (AddRef h s) = fired s" "length (m_refCounts (AddRef h s)) = length (m_refCounts s)"
  by (simp_all add: AddRef_def)

lemma IsValidHandle_AddRef [simp]: "IsValidHandle (AddRef h s) h' = IsValidHandle s h'"
  by (simp add: IsValidHandle_iff)

lemma wf_pool_AddRef [simp]: "wf_pool (AddRef h s) = wf_pool s"
  by (simp add: wf_pool_def)

lemma Create_full:
  assumes "m_maxCapacity s \<noteq> 0" "\<not> m_count s < m_maxCapacity s"
  shows "Create p obj s = (SlotRef_empty, s)"
  using assms by (simp add: Create_def CanCreate_def)

lemma Create_ok:
  assumes "wf_pool s" "CanCreate s" "m_freeList s = [] \<longrightarrow> length (m_data s) < 2 ^ 32"
  shows "m_slot (fst (Create p obj s)) = Some p"
    and "IsValidHandle (snd (Create p obj s)) (m_handle (fst (Create p obj s)))"
    and "wf_pool (snd (Create p obj s))"
    and "m_count (snd (Create p obj s)) = m_count s + 1"
    and "m_maxCapacity (snd (Create p obj s)) = m_maxCapacity s"
    and "length (m_data (snd (Create p obj s))) \<le> Suc (length (m_data s))"
    and "IsValidHandle s h \<Longrightarrow> IsValidHandle (snd (Create p obj s)) h"
  using assms AllocateSlot_valid[of s obj] wf_pool_AllocateSlot[of s obj] AllocateSlot_count[of obj s]
    AllocateSlot_maxCapacity[of obj s] AllocateSlot_length[of obj s] AllocateSlot_keeps_valid[of s h obj]
  by (simp_all add: Create_def case_prod_beta)

lemma wf_pool_empty: "wf_pool empty_pool"
  by (simp add: wf_pool_def empty_pool_def)

subsection \<open>Shrinking\<close>

lemma trailing_dead_le: "trailing_dead al n \<le> n"
  by (induction n) auto




lemma rebuild_freeList_filter:
  "rebuild_freeList n q acc = acc @ filter (\<lambda>idx. unat idx < n) q"
  by (induction q arbitrary: acc) auto

lemma resize_take: "n \<le> length xs \<Longrightarrow> resize n d xs = take n xs"
  by (simp add: resize_def)

lemma ShrinkToFit_fields:
  assumes "wf_pool s"
  defines "n \<equiv> trailing_dead (m_alive s) (length (m_data s))"
  shows "m_data (ShrinkToFit s) = take n (m_data s)"
    and "m_generations (ShrinkToFit s) = take n (m_generations s)"
    and "m_alive (ShrinkToFit s) = take n (m_alive s)"
    and "m_refCounts (ShrinkToFit s) = take n (m_refCounts s)"
    and "m_onDestroyCallbacks (ShrinkToFit s) = take n (m_onDestroyCallbacks s)"
    and "m_freeList (ShrinkToFit s) = filter (\<lambda>idx. unat idx < n) (m_freeList s)"
    and "m_count (ShrinkToFit s) = m_count s"
    and "m_maxCapacity (ShrinkToFit s) = m_maxCapacity s"
    and "fired (ShrinkToFit s) = fired s"
proof -
  have le: "n \<le> length (m_data s)" unfolding n_def by (rule trailing_dead_le)
  have all: "n = length (m_data s) \<Longrightarrow> filter (\<lambda>idx. unat idx < n) (m_freeList s) = m_freeList s"
    using assms(1) by (auto simp: wf_pool_def list_all_iff intro!: filter_True)
  show "m_data (ShrinkToFit s) = take n (m_data s)"
    "m_generations (ShrinkToFit s) = take n (m_generations s)"
    "m_alive (ShrinkToFit s) = take n (m_alive s)"
    "m_refCounts (ShrinkToFit s) = take n (m_refCounts s)"
    "m_onDestroyCallbacks (ShrinkToFit s) = take n (m_onDestroyCallbacks s)"
    "m_freeList (ShrinkToFit s) = filter (\<lambda>idx. unat idx < n) (m_freeList s)"
    "m_count (ShrinkToFit s) = m_count s"
    "m_maxCapacity (ShrinkToFit s) = m_maxCapacity s"
    "fired (ShrinkToFit s) = fired s"
    using assms(1) le all
    by (simp_all add: ShrinkToFit_def Let_def n_def[symmetric] wf_pool_def resize_take
        rebuild_freeList_filter)
qed



lemma wf_pool_ShrinkToFit:
  assumes "wf_pool s"
  shows "wf_pool (ShrinkToFit s)"
proof -
  let ?n = "trailing_dead (m_alive s) (length (m_data s))"
  have le: "?n \<le> length (m_data s)" by (rule trailing_dead_le)
  with assms show ?thesis
    by (auto simp: wf_pool_def ShrinkToFit_fields list_all_iff)
qed

subsection \<open>Clearing with callbacks that leave the pool alone\<close>

lemma alive_hooks_from_fired [simp]:
  "alive_hooks_from i (s\<lparr>fired := f\<rparr>) = alive_hooks_from i s"
  by (simp add: alive_hooks_from_def cong del: if_weak_cong option.case_cong_weak)

lemma alive_hooks_from_end: "length (m_data s) \<le> i \<Longrightarrow> alive_hooks_from i s = []"
  by (simp add: alive_hooks_from_def)

lemma alive_hooks_from_step:
  "i < length (m_data s) \<Longrightarrow>
   alive_hooks_from i s =
     (if m_alive s ! i
      then (case m_onDestroyCallbacks s ! i of Some cb \<Rightarrow> [(i, cb)] | None \<Rightarrow> [])
      else []) @ alive_hooks_from (Suc i) s"
  by (simp add: alive_hooks_from_def upt_conv_Cons)

lemma alive_hooks_from_fst:
  "map fst (alive_hooks_from i s)
     = filter (\<lambda>j. m_alive s ! j \<and> m_onDestroyCallbacks s ! j \<noteq> None) [i ..< length (m_data s)]"
proof -
  have "map fst (concat (map (\<lambda>j. if m_alive s ! j
                       then (case m_onDestroyCallbacks s ! j of Some cb \<Rightarrow> [(j, cb)] | None \<Rightarrow> [])
                       else []) xs))
      = filter (\<lambda>j. m_alive s ! j \<and> m_onDestroyCallbacks s ! j \<noteq> None) xs" for xs
    by (induction xs) (auto split: option.splits)
  then show ?thesis by (simp add: alive_hooks_from_def)
qed

lemma alive_hooks_from_sorted:
  "sorted (map fst (alive_hooks_from i s))" "distinct (map fst (alive_hooks_from i s))"
  by (simp_all add: alive_hooks_from_fst sorted_wrt_filter)

lemma alive_hooks_from_set:
  "set (alive_hooks_from 0 s)
     = {(j, cb). j < length (m_data s) \<and> m_alive s ! j \<and> m_onDestroyCallbacks s ! j = Some cb}"
  by (auto simp: alive_hooks_from_def split: option.splits if_splits)

lemma Clear_loop_quiet:
  fixes s :: "'a pool"
  shows "Clear_loop quiet i s = Some (s\<lparr>fired := fired s @ alive_hooks_from i s\<rparr>)"
proof (induction "length (m_data s) - i" arbitrary: i s)
  case 0
  then have "\<not> i < length (m_data s)" by simp
  then show ?case
    by (subst Clear_loop.simps) (simp add: alive_hooks_from_end)
next
  case (Suc k)
  then have lt: "i < length (m_data s)" and k: "k = length (m_data s) - Suc i" by simp_all
  have rec: "Clear_loop quiet (Suc i) t = Some (t\<lparr>fired := fired t @ alive_hooks_from (Suc i) t\<rparr>)"
    if "length (m_data t) = length (m_data s)" for t :: "'a pool"
  proof -
    from that k have "k = length (m_data t) - Suc i" by simp
    from Suc.hyps(1)[OF this] show ?thesis .
  qed
  show ?case
  proof (cases "m_alive s ! i")
    case False
    with lt rec[of s] show ?thesis
      by (subst Clear_loop.simps) (simp add: alive_hooks_from_step)
  next
    case True
    show ?thesis
    proof (cases "m_onDestroyCallbacks s ! i")
      case None
      with True lt rec[of s] show ?thesis
        by (subst Clear_loop.simps) (simp add: alive_hooks_from_step)
    next
      case (Some cb)
      with True lt rec[of "s\<lparr>fired := fired s @ [(i, cb)]\<rparr>"] show ?thesis
        by (subst Clear_loop.simps) (simp add: alive_hooks_from_step invoke_def quiet_def)
    qed
  qed
qed

lemma Clear_quiet:
  "Clear quiet s =
     Some \<lparr>m_data = [], m_generations = [], m_alive = [], m_refCounts = [],
           m_onDestroyCallbacks = [], m_freeList = [], m_count = 0,
           m_maxCapacity = m_maxCapacity s, fired = fired s @ alive_hooks_from 0 s\<rparr>"
  by (simp add: Clear_def Clear_loop_quiet)

lemma Clear_empty_state: "Clear run s = Some s' \<Longrightarrow> is_empty_state s'"
  by (auto simp: Clear_def is_empty_state_def Count_def Capacity_def split: Option.bind_splits)

subsection \<open>The scenarios, evaluated\<close>

lemmas eval_defs = empty_pool_def Create_def CanCreate_def AllocateSlot_def AddRef_def
      IsValidHandle_def ReleaseRef_def RemoveInternal_def quiet_def Let_def invoke_def
      SetOnDestroyCallback_def ClearOnDestroyCallback_def

lemma five_slots_eq: "five_slots = \<lparr>m_data = [10, 11, 12, 13, 14], m_generations = [0, 0, 0, 1, 1],
     m_alive = [True, True, True, False, False], m_refCounts = [1, 1, 1, 0, 0],
     m_onDestroyCallbacks = [None, None, None, None, None], m_freeList = [3, 4],
     m_count = 3, m_maxCapacity = 0, fired = []\<rparr>"
  by (simp add: five_slots_def eval_defs)

lemma hooked_slots_eq: "hooked_slots = \<lparr>m_data = [10, 11, 12], m_generations = [0, 1, 0],
     m_alive = [True, False, True], m_refCounts = [1, 0, 2],
     m_onDestroyCallbacks = [Some 7, None, Some 9], m_freeList = [1],
     m_count = 2, m_maxCapacity = 0, fired = [(1, 5)]\<rparr>"
  by (simp add: hooked_slots_def eval_defs)

lemma one_hooked_eq: "one_hooked = \<lparr>m_data = [10], m_generations = [0],
     m_alive = [True], m_refCounts = [1],
     m_onDestroyCallbacks = [Some 7], m_freeList = [],
     m_count = 1, m_maxCapacity = 0, fired = []\<rparr>"
  by (simp add: one_hooked_def eval_defs)

lemma two_hooked_eq: "two_hooked = \<lparr>m_data = [10, 11], m_generations = [0, 0],
     m_alive = [True, True], m_refCounts = [1, 1],
     m_onDestroyCallbacks = [Some 7, Some 5], m_freeList = [],
     m_count = 2, m_maxCapacity = 0, fired = []\<rparr>"
  by (simp add: two_hooked_def eval_defs)

subsection \<open>Generations along a sequence of actions\<close>

lemma ForEach_loop_fields [simp]:
  "m_generations (ForEach_loop func k i s) = m_generations s"
  "m_alive (ForEach_loop func k i s) = m_alive s"
  "m_refCounts (ForEach_loop func k i s) = m_refCounts s"
  "m_onDestroyCallbacks (ForEach_loop func k i s) = m_onDestroyCallbacks s"
  "m_freeList (ForEach_loop func k i s) = m_freeList s"
  "m_count (ForEach_loop func k i s) = m_count s"
  "m_maxCapacity (ForEach_loop func k i s) = m_maxCapacity s"
  "fired (ForEach_loop func k i s) = fired s"
  "length (m_data (ForEach_loop func k i s)) = length (m_data s)"
  by (induction k arbitrary: i s) simp_all

lemma ForEach_fields [simp]:
  "m_generations (ForEach func s) = m_generations s"
  "m_alive (ForEach func s) = m_alive s"
  "m_refCounts (ForEach func s) = m_refCounts s"
  "m_onDestroyCallbacks (ForEach func s) = m_onDestroyCallbacks s"
  "m_freeList (ForEach func s) = m_freeList s"
  "m_count (ForEach func s) = m_count s"
  "m_maxCapacity (ForEach func s) = m_maxCapacity s"
  "fired (ForEach func s) = fired s"
  "length (m_data (ForEach func s)) = length (m_data s)"
  by (simp_all add: ForEach_def)

lemma RemoveInternal_quiet:
  "RemoveInternal quiet h s =
     Some (s\<lparr>m_onDestroyCallbacks := (m_onDestroyCallbacks s)[unat (index h) := None],
             m_alive := (m_alive s)[unat (index h) := False],
             m_generations := (m_generations s)[unat (index h) := m_generations s ! unat (index h) + 1],
             m_refCounts := (m_refCounts s)[unat (index h) := 0],
             m_freeList := m_freeList s @ [index h],
             m_count := m_count s - 1,
             fired := fired s @ (case m_onDestroyCallbacks s ! unat (index h) of
                                   Some cb \<Rightarrow> [(unat (index h), cb)] | None \<Rightarrow> [])\<rparr>)"
proof (cases "m_onDestroyCallbacks s ! unat (index h)")
  case None
  then have "(m_onDestroyCallbacks s)[unat (index h) := None] = m_onDestroyCallbacks s"
    by (metis list_update_id)
  with None show ?thesis by (simp add: RemoveInternal_def Let_def)
next
  case (Some cb)
  then show ?thesis by (simp add: RemoveInternal_def Let_def invoke_def quiet_def)
qed

lemma AllocateSlot_generations:
  "m_generations (snd (AllocateSlot obj s)) = m_generations s
   \<or> m_generations (snd (AllocateSlot obj s)) = m_generations s @ [0]"
  by (simp add: AllocateSlot_def Let_def split: list.splits)

lemma Create_generations:
  "m_generations (snd (Create p obj s)) = m_generations s
   \<or> m_generations (snd (Create p obj s)) = m_generations s @ [0]"
  using AllocateSlot_generations[of obj s]
  by (simp add: Create_def case_prod_beta)

lemma ReleaseRef_quiet_generations:
  assumes "ReleaseRef quiet h s = Some s'"
  shows "length (m_generations s') = length (m_generations s)"
    and "j < length (m_generations s) \<Longrightarrow>
         m_generations s' ! j = m_generations s ! j
         \<or> (j = unat (index h) \<and> m_generations s' ! j = m_generations s ! j + 1)"
proof -
  from assms have g: "m_generations s' = m_generations s
      \<or> m_generations s' = (m_generations s)[unat (index h) := m_generations s ! unat (index h) + 1]"
    by (auto simp: ReleaseRef_def RemoveInternal_quiet Let_def split: if_splits)
  then show "length (m_generations s') = length (m_generations s)" by auto
  assume "j < length (m_generations s)"
  with g show "m_generations s' ! j = m_generations s ! j
         \<or> (j = unat (index h) \<and> m_generations s' ! j = m_generations s ! j + 1)"
    by (cases "j = unat (index h)") auto
qed

lemma step_generations:
  assumes "keeps_generations a" "step quiet a s = Some s'" "unat idx < length (m_generations s)"
  shows "unat idx < length (m_generations s') \<and>
         (\<exists>d. d \<le> length (filter (drops_at idx) [a]) \<and>
              m_generations s' ! unat idx = m_generations s ! unat idx + of_nat d)"
proof (cases a)
  case (ACreate obj)
  with assms Create_generations[of 0 obj s] show ?thesis
    by (auto simp: nth_append intro: exI[of _ 0])
next
  case (ADrop h)
  show ?thesis
  proof (cases "IsValidHandle s h")
    case False
    with ADrop assms show ?thesis by (auto intro: exI[of _ 0])
  next
    case True
    with ADrop assms have r: "ReleaseRef quiet h s = Some s'" by simp
    from ReleaseRef_quiet_generations[OF r] assms(3)
    have len: "unat idx < length (m_generations s')"
      and alt: "m_generations s' ! unat idx = m_generations s ! unat idx
            \<or> (unat idx = unat (index h) \<and> m_generations s' ! unat idx = m_generations s ! unat idx + 1)"
      by simp_all
    from alt show ?thesis
    proof
      assume "m_generations s' ! unat idx = m_generations s ! unat idx"
      with len show ?thesis by (auto intro: exI[of _ 0])
    next
      assume b: "unat idx = unat (index h) \<and> m_generations s' ! unat idx = m_generations s ! unat idx + 1"
      then have "index h = idx" by (simp add: word_unat_eq_iff)
      with b len ADrop show ?thesis by (auto intro: exI[of _ 1])
    qed
  qed
qed (use assms in \<open>auto simp: AddRef_def SetOnDestroyCallback_def ClearOnDestroyCallback_def
       SetMaxCapacity_def Reserve_def split: option.splits intro: exI[of _ 0]\<close>)

lemma exec_generations:
  assumes "list_all keeps_generations as" "exec quiet as s = Some s'"
    "unat idx < length (m_generations s)"
  shows "unat idx < length (m_generations s') \<and>
         (\<exists>d. d \<le> length (filter (drops_at idx) as) \<and>
              m_generations s' ! unat idx = m_generations s ! unat idx + of_nat d)"
  using assms
proof (induction as arbitrary: s)
  case Nil
  then show ?case by (auto intro: exI[of _ 0])
next
  case (Cons a as)
  from Cons.prems(2) obtain s1 where s1: "step quiet a s = Some s1" and rest: "exec quiet as s1 = Some s'"
    by (auto split: Option.bind_splits)
  from Cons.prems(1) have ka: "keeps_generations a" and kas: "list_all keeps_generations as"
    by simp_all
  from step_generations[OF ka s1 Cons.prems(3)]
  obtain d1 where len1: "unat idx < length (m_generations s1)"
    and d1: "d1 \<le> length (filter (drops_at idx) [a])"
    and g1: "m_generations s1 ! unat idx = m_generations s ! unat idx + of_nat d1"
    by blast
  from Cons.IH[OF kas rest len1]
  obtain d2 where len2: "unat idx < length (m_generations s')"
    and d2: "d2 \<le> length (filter (drops_at idx) as)"
    and g2: "m_generations s' ! unat idx = m_generations s1 ! unat idx + of_nat d2"
    by blast
  have "d1 + d2 \<le> length (filter (drops_at idx) (a # as))"
    using d1 d2 by (simp split: if_splits)
  moreover have "m_generations s' ! unat idx = m_generations s ! unat idx + of_nat (d1 + d2)"
    using g1 g2 by simp
  ultimately show ?case using len2 by blast
qed

lemma of_nat_u32_nonzero:
  assumes "0 < n" "n < 2 ^ 32"
  shows "(of_nat n :: u32) \<noteq> 0"
proof
  assume "(of_nat n :: u32) = 0"
  then have "unat (of_nat n :: u32) = 0" by simp
  with assms show False by (simp add: unat_of_nat)
qed

lemma ReleaseRef_last_quiet:
  assumes "wf_pool s" "IsValidHandle s h" "m_refCounts s ! unat (index h) = 1"
  shows "ReleaseRef quiet h s =
     Some (s\<lparr>m_onDestroyCallbacks := (m_onDestroyCallbacks s)[unat (index h) := None],
             m_alive := (m_alive s)[unat (index h) := False],
             m_generations := (m_generations s)[unat (index h) := generation h + 1],
             m_refCounts := (m_refCounts s)[unat (index h) := 0],
             m_freeList := m_freeList s @ [index h],
             m_count := m_count s - 1,
             fired := fired s @ (case m_onDestroyCallbacks s ! unat (index h) of
                                   Some cb \<Rightarrow> [(unat (index h), cb)] | None \<Rightarrow> [])\<rparr>)"
  using assms
  by (simp add: ReleaseRef_def RemoveInternal_quiet Let_def IsValidHandle_iff wf_pool_def)

subsection \<open>Repeated use of one slot\<close>

lemma exec_append: "exec run (as @ bs) s = Option.bind (exec run as s) (exec run bs)"
  by (induction as arbitrary: s) (auto split: Option.bind_splits)

lemma rounds_Suc: "rounds obj (Suc n) = rounds obj n @ round obj n"
  by (simp add: rounds_def)

lemma round_first: "exec quiet (round obj 0) empty_pool = Some (used_once obj 1)"
  by (simp add: round_def used_once_def eval_defs)

lemma round_next: "exec quiet (round obj n) (used_once obj n) = Some (used_once obj (Suc n))"
  by (simp add: round_def used_once_def eval_defs)

lemma rounds_state: "exec quiet (rounds obj (Suc n)) empty_pool = Some (used_once obj (Suc n))"
proof (induction n)
  case 0
  show ?case using round_first[of obj] by (simp add: rounds_def)
next
  case (Suc n)
  show ?case
    by (subst rounds_Suc) (simp add: exec_append Suc.IH round_next)
qed

lemma rounds_wrap:
  "exec quiet (rounds obj 4294967296) empty_pool = Some (used_once obj 0)"
proof -
  have "exec quiet (rounds obj (Suc 4294967295)) empty_pool = Some (used_once obj (Suc 4294967295))"
    by (rule rounds_state)
  moreover have "used_once obj (Suc 4294967295) = used_once obj 0"
    by (simp add: used_once_def)
  ultimately show ?thesis by simp
qed

subsection \<open>Copies and drops of one reference\<close>

lemma AddRef_valid:
  "IsValidHandle s h \<Longrightarrow>
   AddRef h s = s\<lparr>m_refCounts := (m_refCounts s)[unat (index h) := m_refCounts s ! unat (index h) + 1]\<rparr>"
  by (simp add: AddRef_def)

lemma AddRef_count:
  assumes "wf_pool s" "IsValidHandle s h"
  shows "m_refCounts (AddRef h s) ! unat (index h) = m_refCounts s ! unat (index h) + 1"
  using assms by (simp add: AddRef_valid wf_pool_def IsValidHandle_iff)

lemma SlotRef_copy_bound:
  assumes "refs w src = \<lparr>m_handle = h, m_slot = Some p\<rparr>" "IsValidHandle (pools w p) h"
  shows "SlotRef_copy a src w =
     w\<lparr>refs := (refs w)(a := \<lparr>m_handle = h, m_slot = Some p\<rparr>),
       pools := (pools w)(p := AddRef h (pools w p))\<rparr>"
  using assms by (simp add: SlotRef_copy_def AddRef_if_valid_def)

lemma copies_state:
  assumes "\<forall>a \<in> set held. refs w a = \<lparr>m_handle = h, m_slot = Some p\<rparr>"
    "IsValidHandle (pools w p) h" "wf_pool (pools w p)" "copied_from held cs"
  shows "refs (copies cs w)
           = (\<lambda>a. if a \<in> fst ` set cs then \<lparr>m_handle = h, m_slot = Some p\<rparr> else refs w a)
    \<and> IsValidHandle (pools (copies cs w) p) h
    \<and> wf_pool (pools (copies cs w) p)
    \<and> m_refCounts (pools (copies cs w) p) ! unat (index h)
        = m_refCounts (pools w p) ! unat (index h) + of_nat (length cs)"
  using assms
proof (induction cs arbitrary: w held)
  case Nil
  then show ?case by simp
next
  case (Cons c cs)
  obtain dst src where c: "c = (dst, src)" by (cases c)
  from Cons.prems(4) c have src: "src \<in> set held" and rest: "copied_from (dst # held) cs"
    by simp_all
  from src Cons.prems(1) have rs: "refs w src = \<lparr>m_handle = h, m_slot = Some p\<rparr>" by blast
  let ?w1 = "SlotRef_copy dst src w"
  have w1: "?w1 = w\<lparr>refs := (refs w)(dst := \<lparr>m_handle = h, m_slot = Some p\<rparr>),
       pools := (pools w)(p := AddRef h (pools w p))\<rparr>"
    by (rule SlotRef_copy_bound[OF rs Cons.prems(2)])
  have r1: "\<forall>a \<in> set (dst # held). refs ?w1 a = \<lparr>m_handle = h, m_slot = Some p\<rparr>"
    using Cons.prems(1) by (simp add: w1)
  have v1: "IsValidHandle (pools ?w1 p) h" using Cons.prems(2) by (simp add: w1)
  have f1: "wf_pool (pools ?w1 p)" using Cons.prems(3) by (simp add: w1)
  have c1: "m_refCounts (AddRef h (pools w p)) ! unat (index h)
      = m_refCounts (pools w p) ! unat (index h) + 1"
    by (rule AddRef_count[OF Cons.prems(3,2)])
  from Cons.IH[OF r1 v1 f1 rest] show ?case
    by (auto simp: c c1 w1 fun_eq_iff)
qed

lemma copied_from_fan_out:
  "src \<in> set held \<Longrightarrow> copied_from held (fan_out src xs)"
  unfolding fan_out_def by (induction xs arbitrary: held) simp_all

lemma fan_out_facts:
  "map fst (fan_out src xs) = xs" "length (fan_out src xs) = length xs"
  "fst ` set (fan_out src xs) = set xs"
  by (simp_all add: fan_out_def comp_def image_image)

lemma u32_of_nat_pred:
  assumes "0 < m"
  shows "(of_nat m :: u32) - 1 = of_nat (m - 1)"
  using assms by (cases m) simp_all

lemma u32_of_nat_zero_iff:
  assumes "m < 2 ^ 32"
  shows "(of_nat m :: u32) = 0 \<longleftrightarrow> m = 0"
  using assms of_nat_u32_nonzero[of m] by (cases "m = 0") simp_all

lemma u32_unat_of_nat: "m < 2 ^ 32 \<Longrightarrow> unat (of_nat m :: u32) = m"
  by (simp add: unat_of_nat)

lemma ReleaseRef_quiet_shared:
  assumes "wf_pool s" "IsValidHandle s h" "m_refCounts s ! unat (index h) = of_nat m"
    "1 < m" "m < 2 ^ 32"
  shows "ReleaseRef quiet h s = Some (s\<lparr>m_refCounts := (m_refCounts s)[unat (index h) := of_nat (m - 1)]\<rparr>)"
proof -
  have pos: "0 < (of_nat m :: u32)"
    using assms(4,5) u32_of_nat_zero_iff[of m] by (simp add: word_gt_0)
  have nz: "(of_nat (m - 1) :: u32) \<noteq> 0"
    using assms(4,5) by (intro of_nat_u32_nonzero) simp_all
  have pred: "(of_nat m :: u32) - 1 = of_nat (m - 1)"
    using assms(4) by (intro u32_of_nat_pred) simp
  from assms(1,2) have "unat (index h) < length (m_refCounts s)"
    by (simp add: wf_pool_def IsValidHandle_iff)
  with assms(2,3) pos nz pred show ?thesis
    by (simp add: ReleaseRef_def Let_def)
qed

lemma Release_bound_shared:
  assumes "refs w a = \<lparr>m_handle = h, m_slot = Some p\<rparr>" "wf_pool (pools w p)"
    "IsValidHandle (pools w p) h" "m_refCounts (pools w p) ! unat (index h) = of_nat m"
    "1 < m" "m < 2 ^ 32"
  shows "Release quiet a w =
     Some (w\<lparr>pools := (pools w)(p := (pools w p)\<lparr>m_refCounts :=
        (m_refCounts (pools w p))[unat (index h) := of_nat (m - 1)]\<rparr>)\<rparr>)"
  using assms ReleaseRef_quiet_shared[OF assms(2,3,4,5,6)]
  by (simp add: Release_def)

lemma Release_bound_last:
  assumes "refs w a = \<lparr>m_handle = h, m_slot = Some p\<rparr>" "wf_pool (pools w p)"
    "IsValidHandle (pools w p) h" "m_refCounts (pools w p) ! unat (index h) = 1"
  shows "\<exists>s'. Release quiet a w = Some (w\<lparr>pools := (pools w)(p := s')\<rparr>) \<and> \<not> IsValidHandle s' h"
proof -
  from ReleaseRef_last_quiet[OF assms(2,3,4)] obtain s' where
    s': "ReleaseRef quiet h (pools w p) = Some s'"
    and a: "m_alive s' = (m_alive (pools w p))[unat (index h) := False]"
    and d: "m_data s' = m_data (pools w p)"
    by simp
  from assms(2,3) have "unat (index h) < length (m_alive (pools w p))"
    by (simp add: wf_pool_def IsValidHandle_iff)
  then have "\<not> IsValidHandle s' h" by (simp add: IsValidHandle_iff a d)
  with s' assms(1,3) show ?thesis by (auto simp: Release_def intro!: exI[of _ s'])
qed

lemma drop1_refs:
  assumes "drop1 run d w = Some w'" "a \<noteq> drop_addr d"
  shows "refs w' a = refs w a"
  using assms
  by (cases d) (auto simp: Reset_def SlotRef_destroy_def Release_def
      split: Option.bind_splits option.splits if_splits)

lemma drop1_pools:
  "drop1 run d w = Some w' \<Longrightarrow> Release run (drop_addr d) w = Some w1 \<Longrightarrow> pools w' = pools w1"
  by (cases d) (auto simp: Reset_def SlotRef_destroy_def split: Option.bind_splits)

lemma drop1_returns:
  "Release run (drop_addr d) w = Some w1 \<Longrightarrow> \<exists>w'. drop1 run d w = Some w'"
  by (cases d) (auto simp: Reset_def SlotRef_destroy_def)

lemma drops_state:
  assumes "wf_pool (pools w p)" "IsValidHandle (pools w p) h"
    "m_refCounts (pools w p) ! unat (index h) = of_nat m" "m < 2 ^ 32"
    "distinct (map drop_addr ds)"
    "\<forall>d \<in> set ds. refs w (drop_addr d) = \<lparr>m_handle = h, m_slot = Some p\<rparr>"
    "length ds \<le> m"
  shows "\<exists>w'. drops quiet ds w = Some w' \<and>
     (\<forall>a. a \<notin> drop_addr ` set ds \<longrightarrow> refs w' a = refs w a) \<and>
     (length ds < m \<longrightarrow> wf_pool (pools w' p) \<and> IsValidHandle (pools w' p) h \<and>
        m_refCounts (pools w' p) ! unat (index h) = of_nat (m - length ds)) \<and>
     (length ds = m \<and> 0 < m \<longrightarrow> \<not> IsValidHandle (pools w' p) h)"
  using assms
proof (induction ds arbitrary: w m)
  case Nil
  then show ?case by auto
next
  case (Cons d ds)
  let ?a = "drop_addr d"
  let ?s = "pools w p"
  let ?i = "unat (index h)"
  from Cons.prems(6) have ra: "refs w ?a = \<lparr>m_handle = h, m_slot = Some p\<rparr>" by simp
  from Cons.prems(7) have m1: "1 \<le> m" by simp
  show ?case
  proof (cases "m = 1")
    case True
    with Cons.prems(7) have ds: "ds = []" by simp
    from True Cons.prems(3) have rc: "m_refCounts ?s ! ?i = 1" by simp
    from Release_bound_last[OF ra Cons.prems(1,2) rc] obtain s' where
      rel: "Release quiet ?a w = Some (w\<lparr>pools := (pools w)(p := s')\<rparr>)"
      and dead: "\<not> IsValidHandle s' h" by blast
    from drop1_returns[OF rel] obtain w1 where w1: "drop1 quiet d w = Some w1" by blast
    from drop1_pools[OF w1 rel] have p1: "pools w1 = (pools w)(p := s')" by simp
    have "\<forall>a. a \<notin> drop_addr ` set (d # ds) \<longrightarrow> refs w1 a = refs w a"
      using drop1_refs[OF w1] by simp
    with w1 p1 dead True ds show ?thesis by simp
  next
    case False
    with m1 have big: "1 < m" by simp
    let ?s1 = "?s\<lparr>m_refCounts := (m_refCounts ?s)[?i := of_nat (m - 1)]\<rparr>"
    from Release_bound_shared[OF ra Cons.prems(1,2,3) big Cons.prems(4)]
    have rel: "Release quiet ?a w = Some (w\<lparr>pools := (pools w)(p := ?s1)\<rparr>)" .
    from drop1_returns[OF rel] obtain w1 where w1: "drop1 quiet d w = Some w1" by blast
    from drop1_pools[OF w1 rel] have p1: "pools w1 = (pools w)(p := ?s1)" by simp
    have r1: "\<And>a. a \<noteq> ?a \<Longrightarrow> refs w1 a = refs w a" using drop1_refs[OF w1] by simp
    from Cons.prems(1,2) have ir: "?i < length (m_refCounts ?s)"
      by (simp add: wf_pool_def IsValidHandle_iff)
    have wf1: "wf_pool (pools w1 p)" using Cons.prems(1) by (simp add: p1 wf_pool_def)
    have v1: "IsValidHandle (pools w1 p) h" using Cons.prems(2) by (simp add: p1 IsValidHandle_iff)
    have c1: "m_refCounts (pools w1 p) ! ?i = of_nat (m - 1)" using ir by (simp add: p1)
    have b1: "m - 1 < 2 ^ 32" using Cons.prems(4) by simp
    have d1: "distinct (map drop_addr ds)" using Cons.prems(5) by simp
    have notin: "?a \<notin> drop_addr ` set ds" using Cons.prems(5) by simp
    have h1: "\<forall>e \<in> set ds. refs w1 (drop_addr e) = \<lparr>m_handle = h, m_slot = Some p\<rparr>"
    proof
      fix e assume e: "e \<in> set ds"
      then have "drop_addr e \<in> drop_addr ` set ds" by (rule imageI)
      with notin have "drop_addr e \<noteq> ?a" by metis
      with r1 Cons.prems(6) e show "refs w1 (drop_addr e) = \<lparr>m_handle = h, m_slot = Some p\<rparr>"
        by simp
    qed
    have l1: "length ds \<le> m - 1" using Cons.prems(7) by simp
    from Cons.IH[OF wf1 v1 c1 b1 d1 h1 l1] obtain w' where
      run: "drops quiet ds w1 = Some w'"
      and keep: "\<forall>a. a \<notin> drop_addr ` set ds \<longrightarrow> refs w' a = refs w1 a"
      and some: "length ds < m - 1 \<longrightarrow> wf_pool (pools w' p) \<and> IsValidHandle (pools w' p) h \<and>
        m_refCounts (pools w' p) ! ?i = of_nat (m - 1 - length ds)"
      and none: "length ds = m - 1 \<and> 0 < m - 1 \<longrightarrow> \<not> IsValidHandle (pools w' p) h"
      by blast
    have "drops quiet (d # ds) w = Some w'" using w1 run by simp
    moreover have "\<forall>a. a \<notin> drop_addr ` set (d # ds) \<longrightarrow> refs w' a = refs w a"
      using keep r1 by simp
    moreover have "length (d # ds) < m \<longrightarrow> wf_pool (pools w' p) \<and> IsValidHandle (pools w' p) h \<and>
        m_refCounts (pools w' p) ! ?i = of_nat (m - length (d # ds))"
      using some by auto
    moreover have "length (d # ds) = m \<and> 0 < m \<longrightarrow> \<not> IsValidHandle (pools w' p) h"
      using none big by auto
    ultimately show ?thesis by blast
  qed
qed

lemma AllocateSlot_refcount:
  assumes "wf_pool s" "m_freeList s = [] \<longrightarrow> length (m_data s) < 2 ^ 32"
  shows "m_refCounts (snd (AllocateSlot obj s)) ! unat (index (fst (AllocateSlot obj s))) = 0"
proof (cases "m_freeList s")
  case Nil
  with assms(2) have "unat (of_nat (length (m_data s)) :: u32) = length (m_data s)"
    by (simp add: unat_of_nat)
  with assms(1) Nil show ?thesis
    by (simp add: wf_pool_def AllocateSlot_def nth_append)
next
  case (Cons idx rest)
  with assms(1) show ?thesis
    by (simp add: wf_pool_def AllocateSlot_def Let_def)
qed

lemma Create_refcount:
  assumes "wf_pool s" "CanCreate s" "m_freeList s = [] \<longrightarrow> length (m_data s) < 2 ^ 32"
  shows "m_refCounts (snd (Create p obj s)) ! unat (index (m_handle (fst (Create p obj s)))) = 1"
  using assms AllocateSlot_refcount[OF assms(1,3), of obj] AllocateSlot_valid[OF assms(1,3), of obj]
    wf_pool_AllocateSlot[OF assms(1), of obj]
  by (simp add: Create_def case_prod_beta AddRef_count)

lemma Create_at_state:
  assumes "wf_pool (pools w p)" "CanCreate (pools w p)"
    "m_freeList (pools w p) = [] \<longrightarrow> length (m_data (pools w p)) < 2 ^ 32"
  shows "\<exists>h. refs (Create_at p obj a w) a = \<lparr>m_handle = h, m_slot = Some p\<rparr> \<and>
     IsValidHandle (pools (Create_at p obj a w) p) h \<and> wf_pool (pools (Create_at p obj a w) p) \<and>
     m_refCounts (pools (Create_at p obj a w) p) ! unat (index h) = 1"
proof -
  obtain r s' where c: "Create p obj (pools w p) = (r, s')" by (cases "Create p obj (pools w p)")
  from Create_ok(1-3)[OF assms, of p obj] Create_refcount[OF assms, of p obj] c
  have "m_slot r = Some p" "IsValidHandle s' (m_handle r)" "wf_pool s'"
    "m_refCounts s' ! unat (index (m_handle r)) = 1" by simp_all
  moreover have "r = \<lparr>m_handle = m_handle r, m_slot = m_slot r\<rparr>" by simp
  ultimately show ?thesis
    by (intro exI[of _ "m_handle r"]) (simp add: Create_at_def c)
qed

lemma fresh_Create_at:
  "refs (Create_at 0 obj 0 fresh_world) 0 = \<lparr>m_handle = \<lparr>index = 0, generation = 0\<rparr>, m_slot = Some 0\<rparr>"
  "pools (Create_at 0 obj 0 fresh_world) 0 = \<lparr>m_data = [obj], m_generations = [0], m_alive = [True],
     m_refCounts = [1], m_onDestroyCallbacks = [None], m_freeList = [], m_count = 1,
     m_maxCapacity = 0, fired = []\<rparr>"
  by (simp_all add: Create_at_def fresh_world_def eval_defs)

subsection \<open>Callbacks and stale references\<close>

lemma stale_world_eq:
  "refs stale_world = (\<lambda>_. SlotRef_empty)(1 := \<lparr>m_handle = \<lparr>index = 0, generation = 0\<rparr>, m_slot = Some 0\<rparr>)"
  "pools stale_world = (\<lambda>_. empty_pool)"
  by (auto simp: stale_world_def Create_at_def fresh_world_def Clear_quiet alive_hooks_from_def
      fun_eq_iff eval_defs)

lemma RemoveInternal_hook:
  assumes "m_onDestroyCallbacks s ! unat (index h) = Some cb"
  shows "RemoveInternal run h s
     = Option.bind (run cb (s\<lparr>fired := fired s @ [(unat (index h), cb)]\<rparr>)) (\<lambda>s'. Some (after_hook h s'))"
  using assms
  by (cases "run cb (s\<lparr>fired := fired s @ [(unat (index h), cb)]\<rparr>)")
     (simp_all add: RemoveInternal_def Let_def invoke_def after_hook_def)

subsection \<open>Well-formedness is kept by every action\<close>

lemma wf_pool_RemoveInternal:
  assumes "wf_pool s" "IsValidHandle s h"
  shows "\<exists>s'. RemoveInternal quiet h s = Some s' \<and> wf_pool s'"
proof -
  let ?i = "unat (index h)"
  from assms have rng: "?i < length (m_data s)" and al: "m_alive s ! ?i"
    by (simp_all add: IsValidHandle_iff)
  from assms(1) have fl: "\<forall>j \<in> set (m_freeList s). unat j < length (m_data s) \<and> \<not> m_alive s ! unat j"
    by (simp add: wf_pool_def list_all_iff)
  with al have notin: "index h \<notin> set (m_freeList s)" by auto
  from assms(1) have la: "length (m_alive s) = length (m_data s)" by (simp add: wf_pool_def)
  have "\<forall>j \<in> set (m_freeList s). unat j < length (m_data s) \<and> \<not> (m_alive s)[?i := False] ! unat j"
  proof
    fix j assume j: "j \<in> set (m_freeList s)"
    with fl have a: "unat j < length (m_data s)" and b: "\<not> m_alive s ! unat j" by auto
    from a la have "(m_alive s)[?i := False] ! unat j = (if ?i = unat j then False else m_alive s ! unat j)"
      by (simp add: nth_list_update)
    with a b show "unat j < length (m_data s) \<and> \<not> (m_alive s)[?i := False] ! unat j"
      by simp
  qed
  with assms(1) rng notin show ?thesis
    by (simp add: RemoveInternal_quiet wf_pool_def list_all_iff)
qed

lemma wf_pool_refCounts_update:
  "wf_pool (s\<lparr>m_refCounts := (m_refCounts s)[i := c]\<rparr>) = wf_pool s"
  by (simp add: wf_pool_def)

lemma IsValidHandle_refCounts_update:
  "IsValidHandle (s\<lparr>m_refCounts := rs\<rparr>) h = IsValidHandle s h"
  by (simp add: IsValidHandle_iff)

lemma wf_pool_ReleaseRef:
  assumes "wf_pool s" "ReleaseRef quiet h s = Some s'"
  shows "wf_pool s'"
proof (cases "IsValidHandle s h")
  case False
  with assms show ?thesis by (simp add: ReleaseRef_def)
next
  case True
  let ?s1 = "s\<lparr>m_refCounts := (m_refCounts s)[unat (index h) := m_refCounts s ! unat (index h) - 1]\<rparr>"
  have w1: "wf_pool ?s1" and v1: "IsValidHandle ?s1 h"
    using assms(1) True by (simp_all add: wf_pool_refCounts_update IsValidHandle_refCounts_update)
  from wf_pool_RemoveInternal[OF w1 v1] obtain t where
    t: "RemoveInternal quiet h ?s1 = Some t" "wf_pool t" by blast
  from assms(2) True have "s' = ?s1 \<or> s' = t"
    using t(1) by (auto simp: ReleaseRef_def Let_def split: if_splits)
  with w1 t(2) show ?thesis by auto
qed

lemma wf_pool_Create: "wf_pool s \<Longrightarrow> wf_pool (snd (Create p obj s))"
  using wf_pool_AllocateSlot[of s obj] by (simp add: Create_def case_prod_beta)

lemma wf_pool_step:
  assumes "wf_pool s" "step quiet a s = Some s'"
  shows "wf_pool s'"
proof (cases a)
  case (ACreate obj)
  with assms show ?thesis by (auto simp: wf_pool_Create)
next
  case (ADrop h)
  with assms show ?thesis by (auto simp: wf_pool_ReleaseRef split: if_splits)
next
  case AShrinkToFit
  with assms show ?thesis by (auto simp: wf_pool_ShrinkToFit)
next
  case AClear
  with assms show ?thesis by (auto simp: Clear_quiet wf_pool_def)
qed (use assms in \<open>auto simp: SetOnDestroyCallback_def ClearOnDestroyCallback_def
       SetMaxCapacity_def Reserve_def wf_pool_def split: option.splits\<close>)

lemma wf_pool_exec:
  "wf_pool s \<Longrightarrow> exec quiet as s = Some s' \<Longrightarrow> wf_pool s'"
proof (induction as arbitrary: s)
  case Nil
  then show ?case by simp
next
  case (Cons a as)
  from Cons.prems(2) obtain s1 where "step quiet a s = Some s1" "exec quiet as s1 = Some s'"
    by (auto split: Option.bind_splits)
  with Cons.IH wf_pool_step[OF Cons.prems(1)] show ?case by blast
qed

lemma wf_pool_reachable: "exec quiet as empty_pool = Some s \<Longrightarrow> wf_pool s"
  using wf_pool_exec[OF wf_pool_empty] .

section \<open>Properties\<close>

text \<open>
  A destroy callback is a callable of the client. Unless a property says otherwise, it is
  taken not to re-enter the pool (\<open>quiet\<close>): its call is recorded and leaves the pool as
  it is. Well-formedness (\<open>wf_pool\<close>) holds of the empty pool and is kept by every
  operation, so it holds of every state the operations reach.
\<close>

subsection \<open>Lookup\<close>

text \<open>
  C1. \<^verbatim>\<open>Get(h)\<close> returns a pointer to the stored element exactly if \<open>h\<close> is valid, that is, if
  \<open>h.index\<close> is inside the storage vector, \<open>alive[h.index]\<close> holds and \<open>generation[h.index]\<close>
  equals \<open>h.generation\<close>; otherwise it returns null. \<^verbatim>\<open>Get\<close> only reads: it is a function of
  the pool state whose result holds no state, so the pool is the same before and after.
\<close>

theorem Get_iff_valid:
  "IsValidHandle s h
     = (unat (index h) < length (m_data s) \<and> m_alive s ! unat (index h)
          \<and> m_generations s ! unat (index h) = generation h)
   \<and> Get s h = (if IsValidHandle s h then Some (unat (index h)) else None)
   \<and> (Get s h \<noteq> None) = IsValidHandle s h
   \<and> (Get s h = Some p) = (IsValidHandle s h \<and> p = unat (index h) \<and> p < length (m_data s))"
  by (auto simp: Get_def IsValidHandle_def)

subsection \<open>Stale handles\<close>

text \<open>
  C2, as amended. Let \<open>h\<close> be valid in a well-formed pool state and hold the last reference
  to its slot, and let the destroy callbacks not operate on the pool. Releasing that
  reference returns, frees the slot and increments its generation, so \<open>h\<close> is invalid; and
  \<open>h\<close> is invalid after every further sequence of public operations other than \<^verbatim>\<open>Clear\<close> and
  \<^verbatim>\<open>ShrinkToFit\<close> in which fewer than \<open>2\<^sup>3\<^sup>2 - 1\<close> drops are addressed to that slot, whatever
  is created in between. Every state reached from the empty pool by such callbacks is
  well-formed.
\<close>

theorem stale_handle_stays_invalid:
  "wf_pool s \<Longrightarrow> IsValidHandle s h \<Longrightarrow> m_refCounts s ! unat (index h) = 1 \<Longrightarrow>
   list_all keeps_generations as \<Longrightarrow>
   length (filter (drops_at (index h)) as) < 2 ^ 32 - 1 \<Longrightarrow>
   (\<exists>s1. ReleaseRef quiet h s = Some s1 \<and> \<not> IsValidHandle s1 h \<and>
         m_generations s1 ! unat (index h) = generation h + 1 \<and>
         (\<forall>s'. exec quiet as s1 = Some s' \<longrightarrow> \<not> IsValidHandle s' h))"
proof -
  assume wf: "wf_pool s" and v: "IsValidHandle s h" and rc: "m_refCounts s ! unat (index h) = 1"
    and keep: "list_all keeps_generations as"
    and few: "length (filter (drops_at (index h)) as) < 2 ^ 32 - 1"
  let ?i = "unat (index h)"
  from ReleaseRef_last_quiet[OF wf v rc] obtain s1 where
    s1: "ReleaseRef quiet h s = Some s1"
    and g1: "m_generations s1 = (m_generations s)[?i := generation h + 1]"
    and a1: "m_alive s1 = (m_alive s)[?i := False]"
    and d1: "m_data s1 = m_data s"
    by simp
  from wf v have in_range: "?i < length (m_generations s)" "?i < length (m_alive s)"
    by (simp_all add: IsValidHandle_iff wf_pool_def)
  then have len1: "?i < length (m_generations s1)" and gen1: "m_generations s1 ! ?i = generation h + 1"
    and dead1: "\<not> IsValidHandle s1 h"
    by (simp_all add: g1 a1 IsValidHandle_iff)
  have later: "\<not> IsValidHandle s' h" if ex: "exec quiet as s1 = Some s'" for s'
  proof -
    from exec_generations[OF keep ex len1] obtain d where
      d: "d \<le> length (filter (drops_at (index h)) as)"
      and g: "m_generations s' ! ?i = m_generations s1 ! ?i + of_nat d"
      by blast
    have "m_generations s' ! ?i = generation h + of_nat (Suc d)"
      using g gen1 by simp
    moreover have "(of_nat (Suc d) :: u32) \<noteq> 0"
      using d few by (intro of_nat_u32_nonzero) simp_all
    ultimately have "m_generations s' ! ?i \<noteq> generation h" by simp
    then show ?thesis by (simp add: IsValidHandle_iff)
  qed
  from s1 dead1 gen1 later show ?thesis by blast
qed

text \<open>
  In the five-slot scenario the last reference to slot 2 is released; three creations
  reuse the positions 3, 4 and 2, the new occupant of slot 2 is dropped and the slot is
  reused once more, with generation 2: the handle of generation 0 stays invalid.
\<close>

theorem stale_handle_stays_invalid_witness:
  "wf_pool five_slots \<and> IsValidHandle five_slots \<lparr>index = 2, generation = 0\<rparr> \<and>
   m_refCounts five_slots ! unat (index \<lparr>index = 2, generation = 0\<rparr>) = 1 \<and>
   list_all keeps_generations
     [ACreate 20, ACreate 21, ACreate 22, ADrop \<lparr>index = 2, generation = 1\<rparr>, ACreate 23] \<and>
   length (filter (drops_at (index \<lparr>index = 2, generation = 0\<rparr>))
     [ACreate (20::nat), ACreate 21, ACreate 22, ADrop \<lparr>index = 2, generation = 1\<rparr>, ACreate 23])
     < 2 ^ 32 - 1 \<and>
   exec quiet [ACreate 20, ACreate 21, ACreate 22, ADrop \<lparr>index = 2, generation = 1\<rparr>, ACreate 23]
     (the (ReleaseRef quiet \<lparr>index = 2, generation = 0\<rparr> five_slots))
     = Some \<lparr>m_data = [10, 11, 23, 20, 21], m_generations = [0, 0, 2, 1, 1],
         m_alive = [True, True, True, True, True], m_refCounts = [1, 1, 1, 1, 1],
         m_onDestroyCallbacks = [None, None, None, None, None], m_freeList = [],
         m_count = 5, m_maxCapacity = 0, fired = []\<rparr> \<and>
   \<not> IsValidHandle (the (exec quiet
       [ACreate 20, ACreate 21, ACreate 22, ADrop \<lparr>index = 2, generation = 1\<rparr>, ACreate 23]
       (the (ReleaseRef quiet \<lparr>index = 2, generation = 0\<rparr> five_slots))))
     \<lparr>index = 2, generation = 0\<rparr>"
  using stale_handle_stays_invalid[of five_slots "\<lparr>index = 2, generation = 0\<rparr>"
      "[ACreate 20, ACreate 21, ACreate 22, ADrop \<lparr>index = 2, generation = 1\<rparr>, ACreate 23]"]
  by (simp add: five_slots_eq wf_pool_def eval_defs)

text \<open>
  C2 as stated, "never again", fails: the generation is a \<^verbatim>\<open>uint32_t\<close> and wraps. The handle
  \<open>(0, 0)\<close> is minted by the first \<^verbatim>\<open>Create\<close> on the empty pool and its slot is freed by the
  release of its only reference. After \<open>2\<^sup>3\<^sup>2\<close> rounds of creating and releasing an element in
  that slot the generation is 0 again, and the next \<^verbatim>\<open>Create\<close> makes \<open>(0, 0)\<close> valid for a
  different element.
\<close>

theorem generation_wraps_counterexample:
  "m_handle (fst (Create 0 (10::nat) empty_pool)) = \<lparr>index = 0, generation = 0\<rparr> \<and>
   IsValidHandle (snd (Create 0 (10::nat) empty_pool)) \<lparr>index = 0, generation = 0\<rparr> \<and>
   map_option (\<lambda>s. IsValidHandle s \<lparr>index = 0, generation = 0\<rparr>)
     (exec quiet (round (10::nat) 0) empty_pool) = Some False \<and>
   map_option (\<lambda>s. IsValidHandle s \<lparr>index = 0, generation = 0\<rparr>)
     (exec quiet (rounds (10::nat) 4294967296 @ [ACreate 10]) empty_pool) = Some True"
proof -
  have "exec quiet (rounds (10::nat) 4294967296 @ [ACreate 10]) empty_pool
      = exec quiet [ACreate 10] (used_once 10 0)"
    by (simp only: exec_append rounds_wrap Option.bind.simps)
  moreover have "map_option (\<lambda>s. IsValidHandle s \<lparr>index = 0, generation = 0\<rparr>)
      (exec quiet [ACreate (10::nat)] (used_once 10 0)) = Some True"
    by (simp add: used_once_def eval_defs)
  moreover have "map_option (\<lambda>s. IsValidHandle s \<lparr>index = 0, generation = 0\<rparr>)
     (exec quiet (round (10::nat) 0) empty_pool) = Some False"
    by (simp only: round_first) (simp add: used_once_def IsValidHandle_def)
  moreover have "m_handle (fst (Create 0 (10::nat) empty_pool)) = \<lparr>index = 0, generation = 0\<rparr> \<and>
      IsValidHandle (snd (Create 0 (10::nat) empty_pool)) \<lparr>index = 0, generation = 0\<rparr>"
    by (simp add: eval_defs)
  ultimately show ?thesis by simp
qed

text \<open>
  \<^verbatim>\<open>Clear\<close> and \<^verbatim>\<open>ShrinkToFit\<close> discard generation counters instead of incrementing them: a
  slot created afterwards at the same position starts at generation 0 again, and a handle
  minted before validates for the new element.
\<close>

lemma Clear_revives_handle:
  "m_handle (fst (Create 0 (10::nat) empty_pool)) = \<lparr>index = 0, generation = 0\<rparr> \<and>
   map_option (\<lambda>s. IsValidHandle s \<lparr>index = 0, generation = 0\<rparr>)
     (exec quiet [ACreate (10::nat), AClear] empty_pool) = Some False \<and>
   map_option (\<lambda>s. IsValidHandle s \<lparr>index = 0, generation = 0\<rparr>)
     (exec quiet [ACreate (10::nat), AClear, ACreate 11] empty_pool) = Some True"
  by (simp add: Clear_quiet eval_defs)

lemma ShrinkToFit_revives_handle:
  "map_option (\<lambda>s. IsValidHandle s \<lparr>index = 0, generation = 0\<rparr>)
     (exec quiet [ACreate (10::nat), ADrop \<lparr>index = 0, generation = 0\<rparr>] empty_pool) = Some False \<and>
   map_option (\<lambda>s. IsValidHandle s \<lparr>index = 0, generation = 0\<rparr>)
     (exec quiet [ACreate (10::nat), ADrop \<lparr>index = 0, generation = 0\<rparr>, AShrinkToFit, ACreate 11]
        empty_pool) = Some True"
  by (simp add: ShrinkToFit_def resize_def eval_defs)

subsection \<open>Reference counting\<close>

text \<open>
  C3, as amended with the bound \<open>n < 2\<^sup>3\<^sup>2\<close>. An element is created through the reference at
  \<open>a0\<close> and copy-constructed to further, distinct addresses, each copy from \<open>a0\<close> or from an
  earlier copy, so that \<open>n = 1 + length cs\<close> references exist, with \<open>n < 2\<^sup>3\<^sup>2\<close>. Then
  \<^verbatim>\<open>UseCount()\<close> is \<open>n\<close> on each of them. When \<open>k\<close> of them are dropped, by \<^verbatim>\<open>Reset\<close> or by the
  destructor, the drops return, \<open>k \<le> n\<close>, and \<^verbatim>\<open>UseCount()\<close> is \<open>n - k\<close> on every remaining one;
  when all are dropped, \<^verbatim>\<open>IsValidHandle\<close> is false for the handle they held.
\<close>

theorem use_count_accounting:
  "wf_pool (pools w0 p) \<Longrightarrow> CanCreate (pools w0 p) \<Longrightarrow>
   (m_freeList (pools w0 p) = [] \<longrightarrow> length (m_data (pools w0 p)) < 2 ^ 32) \<Longrightarrow>
   distinct (a0 # map fst cs) \<Longrightarrow> copied_from [a0] cs \<Longrightarrow> Suc (length cs) < 2 ^ 32 \<Longrightarrow>
   distinct (map drop_addr ds) \<Longrightarrow> drop_addr ` set ds \<subseteq> set (a0 # map fst cs) \<Longrightarrow>
   (let w1 = copies cs (Create_at p obj a0 w0); h = GetHandle a0 w1;
        n = Suc (length cs); k = length ds in
      k \<le> n \<and>
      (\<forall>a \<in> set (a0 # map fst cs). IsValid a w1 \<and> GetHandle a w1 = h \<and> unat (UseCount a w1) = n) \<and>
      (\<exists>w2. drops quiet ds w1 = Some w2 \<and>
         (\<forall>a \<in> set (a0 # map fst cs) - drop_addr ` set ds.
             IsValid a w2 \<and> GetHandle a w2 = h \<and> unat (UseCount a w2) = n - k) \<and>
         (k = n \<longrightarrow> \<not> IsValidHandle (pools w2 p) h)))"
proof -
  assume wf0: "wf_pool (pools w0 p)" and can: "CanCreate (pools w0 p)"
    and room: "m_freeList (pools w0 p) = [] \<longrightarrow> length (m_data (pools w0 p)) < 2 ^ 32"
    and dist: "distinct (a0 # map fst cs)" and chain: "copied_from [a0] cs"
    and bound: "Suc (length cs) < 2 ^ 32"
    and ddist: "distinct (map drop_addr ds)" and sub: "drop_addr ` set ds \<subseteq> set (a0 # map fst cs)"
  let ?wc = "Create_at p obj a0 w0"
  let ?w1 = "copies cs ?wc"
  let ?n = "Suc (length cs)"
  let ?k = "length ds"
  let ?A = "set (a0 # map fst cs)"
  from Create_at_state[OF wf0 can room, of obj a0] obtain h where
    rc: "refs ?wc a0 = \<lparr>m_handle = h, m_slot = Some p\<rparr>"
    and vc: "IsValidHandle (pools ?wc p) h" and wfc: "wf_pool (pools ?wc p)"
    and cc: "m_refCounts (pools ?wc p) ! unat (index h) = 1" by blast
  let ?i = "unat (index h)"
  have rc': "\<forall>a \<in> set [a0]. refs ?wc a = \<lparr>m_handle = h, m_slot = Some p\<rparr>" using rc by simp
  from copies_state[OF rc' vc wfc chain]
  have r1: "refs ?w1 = (\<lambda>a. if a \<in> fst ` set cs then \<lparr>m_handle = h, m_slot = Some p\<rparr> else refs ?wc a)"
    and v1: "IsValidHandle (pools ?w1 p) h" and wf1: "wf_pool (pools ?w1 p)"
    and c1: "m_refCounts (pools ?w1 p) ! ?i = of_nat ?n"
    by (simp_all add: cc)
  have held: "refs ?w1 a = \<lparr>m_handle = h, m_slot = Some p\<rparr>" if "a \<in> ?A" for a
    using that rc by (auto simp: r1)
  have h0: "GetHandle a0 ?w1 = h" using held[of a0] by (simp add: GetHandle_def)
  have cardA: "card ?A = ?n" using dist by (metis distinct_card length_Cons length_map)
  have cardD: "card (drop_addr ` set ds) = ?k"
    using ddist by (metis distinct_card length_map set_map)
  have kn: "?k \<le> ?n"
  proof -
    have "card (drop_addr ` set ds) \<le> card ?A" using sub by (intro card_mono) simp_all
    then show ?thesis by (simp only: cardA cardD)
  qed
  have un1: "unat (m_refCounts (pools ?w1 p) ! ?i) = ?n"
    by (simp only: c1 u32_unat_of_nat[OF bound])
  have before: "IsValid a ?w1 \<and> GetHandle a ?w1 = h \<and> unat (UseCount a ?w1) = ?n"
    if "a \<in> ?A" for a
    using held[OF that] v1 un1
    by (simp add: IsValid_def GetHandle_def UseCount_def GetRefCount_def)
  have dh: "\<forall>d \<in> set ds. refs ?w1 (drop_addr d) = \<lparr>m_handle = h, m_slot = Some p\<rparr>"
    using sub held by blast
  from drops_state[OF wf1 v1 c1 bound ddist dh kn] obtain w2 where
    run: "drops quiet ds ?w1 = Some w2"
    and keep: "\<forall>a. a \<notin> drop_addr ` set ds \<longrightarrow> refs w2 a = refs ?w1 a"
    and some: "?k < ?n \<longrightarrow> wf_pool (pools w2 p) \<and> IsValidHandle (pools w2 p) h \<and>
        m_refCounts (pools w2 p) ! ?i = of_nat (?n - ?k)"
    and none: "?k = ?n \<and> 0 < ?n \<longrightarrow> \<not> IsValidHandle (pools w2 p) h"
    by blast
  have after: "IsValid a w2 \<and> GetHandle a w2 = h \<and> unat (UseCount a w2) = ?n - ?k"
    if a: "a \<in> ?A - drop_addr ` set ds" for a
  proof -
    have "?k < ?n"
    proof -
      have "card (insert a (drop_addr ` set ds)) \<le> card ?A"
        using sub a by (intro card_mono) auto
      moreover have "card (insert a (drop_addr ` set ds)) = Suc (card (drop_addr ` set ds))"
        using a by (intro card_insert_disjoint) auto
      ultimately show ?thesis by (simp only: cardA cardD)
    qed
    with some have v2: "IsValidHandle (pools w2 p) h"
      and c2: "m_refCounts (pools w2 p) ! ?i = of_nat (?n - ?k)" by simp_all
    have r2: "refs w2 a = \<lparr>m_handle = h, m_slot = Some p\<rparr>"
      using keep a held[of a] by simp
    have "?n - ?k < 2 ^ 32" using bound by simp
    then have un2: "unat (m_refCounts (pools w2 p) ! ?i) = ?n - ?k"
      by (simp only: c2 u32_unat_of_nat)
    with r2 v2 show ?thesis
      by (simp add: IsValid_def GetHandle_def UseCount_def GetRefCount_def)
  qed
  from kn before run after none show ?thesis
    unfolding Let_def h0 by (intro conjI ballI exI[of _ w2]) simp_all
qed

text \<open>
  Three references, the third a copy of the second; two of them and then all three are
  dropped.
\<close>

theorem use_count_accounting_witness:
  "wf_pool (pools (fresh_world :: nat world) 0) \<and> CanCreate (pools (fresh_world :: nat world) 0) \<and>
   m_freeList (pools (fresh_world :: nat world) 0) = [] \<and>
   length (m_data (pools (fresh_world :: nat world) 0)) < 2 ^ 32 \<and>
   distinct (1 # map fst [(2::addr, 1::addr), (3, 2)]) \<and> copied_from [1] [(2, 1), (3, 2)] \<and>
   Suc (length [(2::addr, 1::addr), (3, 2)]) < 2 ^ 32 \<and>
   distinct (map drop_addr [ByReset 2, ByDestructor 1]) \<and>
   drop_addr ` set [ByReset 2, ByDestructor 1] \<subseteq> set (1 # map fst [(2, 1), (3, 2)]) \<and>
   UseCount 1 (copies [(2, 1), (3, 2)] (Create_at 0 (10::nat) 1 fresh_world)) = 3 \<and>
   UseCount 3 (the (drops quiet [ByReset 2, ByDestructor 1]
                  (copies [(2, 1), (3, 2)] (Create_at 0 (10::nat) 1 fresh_world)))) = 1 \<and>
   IsValidHandle (pools (the (drops quiet [ByReset 2, ByDestructor 1]
                  (copies [(2, 1), (3, 2)] (Create_at 0 (10::nat) 1 fresh_world)))) 0)
      \<lparr>index = 0, generation = 0\<rparr> \<and>
   \<not> IsValidHandle (pools (the (drops quiet [ByReset 2, ByDestructor 1, ByReset 3]
                  (copies [(2, 1), (3, 2)] (Create_at 0 (10::nat) 1 fresh_world)))) 0)
      \<lparr>index = 0, generation = 0\<rparr>"
  using use_count_accounting[of "fresh_world :: nat world" 0 1 "[(2, 1), (3, 2)]"
      "[ByReset 2, ByDestructor 1]" 10]
  by (simp add: fresh_world_def Create_at_def SlotRef_copy_def AddRef_if_valid_def Reset_def
      SlotRef_destroy_def Release_def UseCount_def IsValid_def GetRefCount_def GetHandle_def
      wf_pool_def eval_defs)

text \<open>
  C3 as stated, for every \<open>n\<close>, fails: the count is a \<^verbatim>\<open>uint32_t\<close>. With the reference at
  address 0 copied to the addresses 1 to \<open>2\<^sup>3\<^sup>2 - 1\<close> there are \<open>2\<^sup>3\<^sup>2\<close> valid references, none
  is dropped, and \<^verbatim>\<open>UseCount()\<close> is 0 on them.
\<close>

theorem use_count_wraps_counterexample:
  "distinct (0 # map fst (fan_out 0 [Suc 0 ..< 4294967296])) \<and>
   copied_from [0] (fan_out 0 [Suc 0 ..< 4294967296]) \<and>
   Suc (length (fan_out 0 [Suc 0 ..< 4294967296])) = 4294967296 \<and>
   IsValid 0 (copies (fan_out 0 [Suc 0 ..< 4294967296]) (Create_at 0 (10::nat) 0 fresh_world)) \<and>
   IsValid 7 (copies (fan_out 0 [Suc 0 ..< 4294967296]) (Create_at 0 (10::nat) 0 fresh_world)) \<and>
   UseCount 0 (copies (fan_out 0 [Suc 0 ..< 4294967296]) (Create_at 0 (10::nat) 0 fresh_world)) = 0 \<and>
   UseCount 7 (copies (fan_out 0 [Suc 0 ..< 4294967296]) (Create_at 0 (10::nat) 0 fresh_world)) = 0"
proof -
  let ?cs = "fan_out 0 [Suc 0 ..< 4294967296]"
  let ?wc = "Create_at 0 (10::nat) 0 fresh_world"
  let ?h = "\<lparr>index = 0, generation = 0\<rparr>"
  let ?w = "copies ?cs ?wc"
  have v: "IsValidHandle (pools ?wc 0) ?h" and f: "wf_pool (pools ?wc 0)"
    and c: "m_refCounts (pools ?wc 0) ! unat (index ?h) = 1"
    by (simp_all add: fresh_Create_at IsValidHandle_def wf_pool_def)
  have chain: "copied_from [0] ?cs" by (rule copied_from_fan_out) simp
  have held: "\<forall>a \<in> set [0]. refs ?wc a = \<lparr>m_handle = ?h, m_slot = Some 0\<rparr>"
    by (simp add: fresh_Create_at)
  from copies_state[OF held v f chain]
  have r: "refs ?w = (\<lambda>a. if a \<in> fst ` set ?cs then \<lparr>m_handle = ?h, m_slot = Some 0\<rparr>
                        else refs ?wc a)"
    and v': "IsValidHandle (pools ?w 0) ?h"
    and c': "m_refCounts (pools ?w 0) ! unat (index ?h)
         = m_refCounts (pools ?wc 0) ! unat (index ?h) + of_nat (length ?cs)"
    by blast+
  have zero: "m_refCounts (pools ?w 0) ! unat (index ?h) = 0"
    unfolding c' c by (simp add: fan_out_facts)
  have dom: "fst ` set ?cs = {Suc 0 ..< 4294967296}" by (simp add: fan_out_facts)
  have r0: "refs ?w 0 = \<lparr>m_handle = ?h, m_slot = Some 0\<rparr>"
    unfolding r dom by (simp add: fresh_Create_at)
  have r7: "refs ?w 7 = \<lparr>m_handle = ?h, m_slot = Some 0\<rparr>"
    unfolding r dom by simp
  have d: "distinct (0 # map fst ?cs)" "Suc (length ?cs) = 4294967296"
    by (simp_all add: fan_out_facts)
  show ?thesis
    using v' zero chain d
    by (simp add: IsValid_def UseCount_def GetRefCount_def r0 r7)
qed

subsection \<open>Clear\<close>

text \<open>
  C4 says that \<^verbatim>\<open>Clear()\<close> calls the destroy callback of each live slot that has one exactly
  once, in increasing order of the position. The code does not: \<^verbatim>\<open>Clear\<close> calls a callback and
  leaves it stored, and its slot alive, until the loop has ended. In the pool below the
  slots 0 and 1 are alive with one reference each and the callbacks 7 and 5, and callback 5
  resets the reference to the element in slot 0. \<^verbatim>\<open>Clear\<close> calls 7 for slot 0 and 5 for slot
  1; the release inside 5 brings the count of slot 0 to zero and \<^verbatim>\<open>RemoveInternal\<close> calls 7 a
  second time. The calls are 7, 5, 7; the pool is empty afterwards.
\<close>

theorem Clear_calls_hook_twice:
  "m_alive two_hooked = [True, True] \<and> m_refCounts two_hooked = [1, 1] \<and>
   m_generations two_hooked = [0, 0] \<and>
   m_onDestroyCallbacks two_hooked = [Some 7, Some 5] \<and> fired two_hooked = [] \<and>
   alive_hooks_from 0 two_hooked = [(0, 7), (1, 5)] \<and>
   Clear (drop_other 5 \<lparr>index = 0, generation = 0\<rparr>) two_hooked
     = Some \<lparr>m_data = [], m_generations = [], m_alive = [], m_refCounts = [],
         m_onDestroyCallbacks = [], m_freeList = [], m_count = 0, m_maxCapacity = 0,
         fired = [(0, 7), (1, 5), (0, 7)]\<rparr>"
proof -
  have a: "alive_hooks_from 0 two_hooked = [(0, 7), (1, 5)]"
    by (simp add: two_hooked_eq alive_hooks_from_def upt_rec)
  have "Clear_loop (drop_other 5 \<lparr>index = 0, generation = 0\<rparr>) 0 two_hooked
      = Some \<lparr>m_data = [10, 11], m_generations = [1, 0],
     m_alive = [False, True], m_refCounts = [0, 1],
     m_onDestroyCallbacks = [None, Some 5], m_freeList = [0],
     m_count = 1, m_maxCapacity = 0, fired = [(0, 7), (1, 5), (0, 7)]\<rparr>"
    apply (subst Clear_loop.simps)
    apply (simp add: two_hooked_eq invoke_def)
    apply (subst Clear_loop.simps)
    apply (simp add: invoke_def eval_defs)
    apply (subst Clear_loop.simps)
    apply simp
    done
  then have c: "Clear (drop_other 5 \<lparr>index = 0, generation = 0\<rparr>) two_hooked
     = Some \<lparr>m_data = [], m_generations = [], m_alive = [], m_refCounts = [],
         m_onDestroyCallbacks = [], m_freeList = [], m_count = 0, m_maxCapacity = 0,
         fired = [(0, 7), (1, 5), (0, 7)]\<rparr>"
    by (simp add: Clear_def)
  have b: "m_alive two_hooked = [True, True]" "m_refCounts two_hooked = [1, 1]"
    "m_generations two_hooked = [0, 0]"
    "m_onDestroyCallbacks two_hooked = [Some 7, Some 5]" "fired two_hooked = []"
    by (simp_all add: two_hooked_eq)
  from a b c show ?thesis by blast
qed

text \<open>
  With callbacks that do not operate on the pool, \<^verbatim>\<open>Clear()\<close> returns and the calls it adds to
  the record are exactly the pairs of a live position and the callback stored there, each
  position once, in increasing order of the position. The pool is empty afterwards, and
  it is empty after \<^verbatim>\<open>Clear()\<close> with any callbacks, provided it returns.
\<close>

lemma Clear_quiet_calls_and_empties:
  "Clear quiet s =
     Some \<lparr>m_data = [], m_generations = [], m_alive = [], m_refCounts = [],
           m_onDestroyCallbacks = [], m_freeList = [], m_count = 0,
           m_maxCapacity = m_maxCapacity s, fired = fired s @ alive_hooks_from 0 s\<rparr> \<and>
   set (alive_hooks_from 0 s)
     = {(j, cb). j < length (m_data s) \<and> m_alive s ! j \<and> m_onDestroyCallbacks s ! j = Some cb} \<and>
   distinct (map fst (alive_hooks_from 0 s)) \<and>
   sorted (map fst (alive_hooks_from 0 s)) \<and>
   is_empty_state (the (Clear quiet s)) \<and>
   (\<forall>run s'. Clear run s = Some s' \<longrightarrow> is_empty_state s')"
  using Clear_empty_state[of _ s] alive_hooks_from_sorted[of 0 s] alive_hooks_from_set[of s]
  by (simp add: Clear_quiet is_empty_state_def Count_def Capacity_def)

text \<open>
  A pool of three slots: slots 0 and 2 are alive with callbacks 7 and 9, slot 1 is dead and
  its callback 5 was called when it was released.
\<close>

lemma Clear_quiet_hooked_slots:
  "Clear quiet hooked_slots
     = Some \<lparr>m_data = [], m_generations = [], m_alive = [], m_refCounts = [],
         m_onDestroyCallbacks = [], m_freeList = [], m_count = 0, m_maxCapacity = 0,
         fired = [(1, 5), (0, 7), (2, 9)]\<rparr> \<and>
   is_empty_state (the (Clear quiet hooked_slots))"
proof -
  have e: "alive_hooks_from 0 hooked_slots = [(0, 7), (2, 9)]"
    by (simp add: hooked_slots_eq alive_hooks_from_def upt_rec)
  have f: "fired hooked_slots = [(1, 5)]" "m_maxCapacity hooked_slots = 0"
    by (simp_all add: hooked_slots_eq)
  from Clear_quiet_calls_and_empties[of hooked_slots]
  have "Clear quiet hooked_slots =
     Some \<lparr>m_data = [], m_generations = [], m_alive = [], m_refCounts = [],
           m_onDestroyCallbacks = [], m_freeList = [], m_count = 0,
           m_maxCapacity = m_maxCapacity hooked_slots,
           fired = fired hooked_slots @ alive_hooks_from 0 hooked_slots\<rparr>"
    and "is_empty_state (the (Clear quiet hooked_slots))"
    by blast+
  then show ?thesis by (simp add: e f)
qed

subsection \<open>Weak references\<close>

text \<open>
  C5. \<open>upgrade()\<close> returns a bound strong reference and increments the reference count of
  the slot by one exactly if the pool pointer of the weak reference is not null and its
  handle is valid; otherwise it returns nothing and changes nothing. In particular it
  returns nothing when the slot at the index of the handle carries a higher generation
  than the handle, as it does once the slot has been removed and recycled.
\<close>

theorem upgrade_iff_valid:
  "(fst (upgrade wk w) \<noteq> None) = (\<exists>p. w_slot wk = Some p \<and> IsValidHandle (pools w p) (w_handle wk)) \<and>
   (w_slot wk = Some p \<and> IsValidHandle (pools w p) (w_handle wk) \<and> wf_pool (pools w p) \<longrightarrow>
      fst (upgrade wk w) = Some \<lparr>m_handle = w_handle wk, m_slot = Some p\<rparr> \<and>
      refs (snd (upgrade wk w)) = refs w \<and>
      pools (snd (upgrade wk w)) = (pools w)(p := AddRef (w_handle wk) (pools w p)) \<and>
      IsValidHandle (pools (snd (upgrade wk w)) p) (w_handle wk) \<and>
      GetRefCount (pools (snd (upgrade wk w)) p) (w_handle wk)
        = GetRefCount (pools w p) (w_handle wk) + 1) \<and>
   (fst (upgrade wk w) = None \<longrightarrow> snd (upgrade wk w) = w) \<and>
   (w_slot wk = Some p \<and> generation (w_handle wk) < m_generations (pools w p) ! unat (index (w_handle wk))
      \<longrightarrow> upgrade wk w = (None, w))"
proof (intro conjI impI)
  show "(fst (upgrade wk w) \<noteq> None) = (\<exists>p. w_slot wk = Some p \<and> IsValidHandle (pools w p) (w_handle wk))"
    by (auto simp: upgrade_def split: option.splits)
next
  assume a: "w_slot wk = Some p \<and> IsValidHandle (pools w p) (w_handle wk) \<and> wf_pool (pools w p)"
  then show "fst (upgrade wk w) = Some \<lparr>m_handle = w_handle wk, m_slot = Some p\<rparr>"
    "refs (snd (upgrade wk w)) = refs w"
    "pools (snd (upgrade wk w)) = (pools w)(p := AddRef (w_handle wk) (pools w p))"
    "IsValidHandle (pools (snd (upgrade wk w)) p) (w_handle wk)"
    by (simp_all add: upgrade_def)
  from a show "GetRefCount (pools (snd (upgrade wk w)) p) (w_handle wk)
        = GetRefCount (pools w p) (w_handle wk) + 1"
    by (simp add: upgrade_def GetRefCount_def AddRef_count)
next
  assume "fst (upgrade wk w) = None"
  then show "snd (upgrade wk w) = w"
    by (auto simp: upgrade_def split: option.splits if_splits)
next
  assume "w_slot wk = Some p \<and> generation (w_handle wk) < m_generations (pools w p) ! unat (index (w_handle wk))"
  then show "upgrade wk w = (None, w)"
    by (auto simp: upgrade_def IsValidHandle_iff)
qed

text \<open>
  A weak reference is derived from the only strong one. While the strong one lives, the
  upgrade succeeds and the count becomes 2. After the strong one is reset and a new element
  is created in the same slot, with generation 1, the upgrade returns nothing.
\<close>

theorem upgrade_iff_valid_witness:
  "w_slot (GetWeak 1 (Create_at 0 (10::nat) 1 fresh_world)) = Some 0 \<and>
   IsValidHandle (pools (Create_at 0 (10::nat) 1 fresh_world) 0)
     (w_handle (GetWeak 1 (Create_at 0 (10::nat) 1 fresh_world))) \<and>
   wf_pool (pools (Create_at 0 (10::nat) 1 fresh_world) 0) \<and>
   fst (upgrade (GetWeak 1 (Create_at 0 (10::nat) 1 fresh_world)) (Create_at 0 10 1 fresh_world))
     = Some \<lparr>m_handle = \<lparr>index = 0, generation = 0\<rparr>, m_slot = Some 0\<rparr> \<and>
   UseCount 1 (snd (upgrade (GetWeak 1 (Create_at 0 (10::nat) 1 fresh_world))
                      (Create_at 0 10 1 fresh_world))) = 2 \<and>
   generation (w_handle (GetWeak 1 (Create_at 0 (10::nat) 1 fresh_world)))
     < m_generations (pools (Create_at 0 11 2 (the (Reset quiet 1 (Create_at 0 (10::nat) 1 fresh_world)))) 0)
         ! unat (index (w_handle (GetWeak 1 (Create_at 0 (10::nat) 1 fresh_world)))) \<and>
   GetHandle 2 (Create_at 0 11 2 (the (Reset quiet 1 (Create_at 0 (10::nat) 1 fresh_world))))
     = \<lparr>index = 0, generation = 1\<rparr> \<and>
   fst (upgrade (GetWeak 1 (Create_at 0 (10::nat) 1 fresh_world))
          (Create_at 0 11 2 (the (Reset quiet 1 (Create_at 0 (10::nat) 1 fresh_world))))) = None \<and>
   snd (upgrade (GetWeak 1 (Create_at 0 (10::nat) 1 fresh_world))
          (Create_at 0 11 2 (the (Reset quiet 1 (Create_at 0 (10::nat) 1 fresh_world)))))
     = Create_at 0 11 2 (the (Reset quiet 1 (Create_at 0 (10::nat) 1 fresh_world)))"
  using upgrade_iff_valid[of "GetWeak 1 (Create_at 0 (10::nat) 1 fresh_world)"
      "Create_at 0 10 1 fresh_world" 0]
    upgrade_iff_valid[of "GetWeak 1 (Create_at 0 (10::nat) 1 fresh_world)"
      "Create_at 0 11 2 (the (Reset quiet 1 (Create_at 0 (10::nat) 1 fresh_world)))" 0]
  by (simp add: GetWeak_def Create_at_def fresh_world_def Reset_def Release_def upgrade_def
      UseCount_def IsValid_def GetRefCount_def GetHandle_def wf_pool_def eval_defs)

subsection \<open>Capacity\<close>

text \<open>
  C6. \<^verbatim>\<open>CanCreate()\<close> is true exactly if \<open>max_capacity\<close> is 0 (unbounded) or
  \<open>count < max_capacity\<close>. Consequently, on a pool with \<open>max_capacity = 2\<close> and no live
  element, two calls of \<^verbatim>\<open>Create\<close> succeed (each returns a reference bound to the pool whose
  handle is valid) and a third returns the empty reference and leaves the pool as it was,
  with \<open>count() = 2\<close>.
\<close>

theorem CanCreate_capacity:
  "(CanCreate s \<longleftrightarrow> (m_maxCapacity s = 0 \<or> m_count s < m_maxCapacity s)) \<and>
   (wf_pool s0 \<and> m_maxCapacity s0 = 2 \<and> m_count s0 = 0 \<and> length (m_data s0) + 2 \<le> 2 ^ 32 \<longrightarrow>
      (case Create p a s0 of (r1, s1) \<Rightarrow>
       case Create p b s1 of (r2, s2) \<Rightarrow>
       case Create p c s2 of (r3, s3) \<Rightarrow>
         m_slot r1 = Some p \<and> IsValidHandle s1 (m_handle r1) \<and>
         m_slot r2 = Some p \<and> IsValidHandle s2 (m_handle r2) \<and>
         r3 = SlotRef_empty \<and> s3 = s2 \<and> Count s3 = 2 \<and>
         IsValidHandle s3 (m_handle r1) \<and> IsValidHandle s3 (m_handle r2)))"
proof (intro conjI impI)
  show "CanCreate s \<longleftrightarrow> (m_maxCapacity s = 0 \<or> m_count s < m_maxCapacity s)"
    by (simp add: CanCreate_def)
next
  assume h: "wf_pool s0 \<and> m_maxCapacity s0 = 2 \<and> m_count s0 = 0 \<and> length (m_data s0) + 2 \<le> 2 ^ 32"
  obtain r1 s1 where c1: "Create p a s0 = (r1, s1)" by (cases "Create p a s0")
  obtain r2 s2 where c2: "Create p b s1 = (r2, s2)" by (cases "Create p b s1")
  obtain r3 s3 where c3: "Create p c s2 = (r3, s3)" by (cases "Create p c s2")
  from h have can0: "CanCreate s0" by (simp add: CanCreate_def)
  from h have b0: "m_freeList s0 = [] \<longrightarrow> length (m_data s0) < 2 ^ 32" by simp
  from h have wf0: "wf_pool s0" by simp
  have s1: "m_slot r1 = Some p" "IsValidHandle s1 (m_handle r1)" "wf_pool s1" "m_count s1 = 1"
    "m_maxCapacity s1 = 2" "length (m_data s1) \<le> Suc (length (m_data s0))"
    using Create_ok(1-6)[OF wf0 can0 b0, of p a] c1 h by simp_all
  have can1: "CanCreate s1" using s1 by (simp add: CanCreate_def)
  have b1: "m_freeList s1 = [] \<longrightarrow> length (m_data s1) < 2 ^ 32" using s1(6) h by simp
  have s2: "m_slot r2 = Some p" "IsValidHandle s2 (m_handle r2)" "m_count s2 = 2"
    "m_maxCapacity s2 = 2" "IsValidHandle s2 (m_handle r1)"
    using Create_ok(1-5)[OF s1(3) can1 b1, of p b] Create_ok(7)[OF s1(3) can1 b1 s1(2), of p b] c2 s1
    by simp_all
  have "Create p c s2 = (SlotRef_empty, s2)"
    by (rule Create_full) (simp_all add: s2)
  with c3 have s3: "r3 = SlotRef_empty" "s3 = s2" by simp_all
  show "case Create p a s0 of (r1, s1) \<Rightarrow>
       case Create p b s1 of (r2, s2) \<Rightarrow>
       case Create p c s2 of (r3, s3) \<Rightarrow>
         m_slot r1 = Some p \<and> IsValidHandle s1 (m_handle r1) \<and>
         m_slot r2 = Some p \<and> IsValidHandle s2 (m_handle r2) \<and>
         r3 = SlotRef_empty \<and> s3 = s2 \<and> Count s3 = 2 \<and>
         IsValidHandle s3 (m_handle r1) \<and> IsValidHandle s3 (m_handle r2)"
    using c1 c2 c3 s1 s2 s3 by (simp add: Count_def)
qed

text \<open>The scenario on the freshly constructed pool after \<^verbatim>\<open>SetMaxCapacity(2)\<close>.\<close>

theorem CanCreate_capacity_witness:
  "wf_pool (SetMaxCapacity 2 (empty_pool :: nat pool)) \<and>
   m_maxCapacity (SetMaxCapacity 2 (empty_pool :: nat pool)) = 2 \<and>
   m_count (SetMaxCapacity 2 (empty_pool :: nat pool)) = 0 \<and>
   length (m_data (SetMaxCapacity 2 (empty_pool :: nat pool))) + 2 \<le> 2 ^ 32 \<and>
   (case Create 0 (10::nat) (SetMaxCapacity 2 empty_pool) of (r1, s1) \<Rightarrow>
    case Create 0 20 s1 of (r2, s2) \<Rightarrow>
    case Create 0 30 s2 of (r3, s3) \<Rightarrow>
      r1 = \<lparr>m_handle = \<lparr>index = 0, generation = 0\<rparr>, m_slot = Some 0\<rparr> \<and>
      r2 = \<lparr>m_handle = \<lparr>index = 1, generation = 0\<rparr>, m_slot = Some 0\<rparr> \<and>
      IsValidHandle s3 (m_handle r1) \<and> IsValidHandle s3 (m_handle r2) \<and>
      r3 = SlotRef_empty \<and> s3 = s2 \<and> Count s3 = 2 \<and> \<not> CanCreate s3)"
  using CanCreate_capacity[of "SetMaxCapacity 2 (empty_pool :: nat pool)"
      "SetMaxCapacity 2 (empty_pool :: nat pool)" 0 10 20 30]
  by (simp add: wf_pool_def empty_pool_def SetMaxCapacity_def Create_def CanCreate_def
      AllocateSlot_def AddRef_def IsValidHandle_def Count_def SlotRef_empty_def)

subsection \<open>Copying\<close>

text \<open>
  C7, as amended. Copy construction gives the new reference the handle and the pool pointer
  of the source in every case. If the source is bound and its handle is valid in its pool,
  the reference count of the slot is incremented and nothing else changes in the pools;
  otherwise no pool changes and the copy is as invalid as the source: it is empty only
  if the source is. Copy assignment from another object first releases what the target
  held and then does what the copy constructor does, in the state after the release.
\<close>

theorem copy_shares_or_stays_unbound:
  "(let w' = SlotRef_copy this other w in
      refs w' this = refs w other \<and> (\<forall>a. a \<noteq> this \<longrightarrow> refs w' a = refs w a) \<and>
      (IsValid other w \<longrightarrow>
         IsValid this w' \<and>
         pools w' = (pools w)(the (m_slot (refs w other)) :=
                      AddRef (m_handle (refs w other)) (pools w (the (m_slot (refs w other))))) \<and>
         (wf_pool (pools w (the (m_slot (refs w other)))) \<longrightarrow> UseCount this w' = UseCount other w + 1)) \<and>
      (\<not> IsValid other w \<longrightarrow> pools w' = pools w \<and> \<not> IsValid this w' \<and> UseCount this w' = 0)) \<and>
   (this \<noteq> other \<longrightarrow>
      copy_assign run this other w
        = Option.bind (Release run this w) (\<lambda>w1. Some (SlotRef_copy this other w1)))"
proof -
  obtain h slot where o: "refs w other = \<lparr>m_handle = h, m_slot = slot\<rparr>"
    by (cases "refs w other") simp
  show ?thesis
  proof (cases "IsValid other w")
    case True
    with o obtain p where p: "slot = Some p" and v: "IsValidHandle (pools w p) h"
      by (auto simp: IsValid_def split: option.splits)
    from o p v show ?thesis
      by (auto simp: Let_def SlotRef_copy_def AddRef_if_valid_def IsValid_def UseCount_def
          GetRefCount_def AddRef_count copy_assign_def)
  next
    case False
    with o show ?thesis
      by (auto simp: Let_def SlotRef_copy_def AddRef_if_valid_def IsValid_def UseCount_def
          copy_assign_def split: option.splits)
  qed
qed

text \<open>
  A copy of a valid reference, a copy of a stale one, and an assignment that releases the
  last reference to the second element before it shares the first.
\<close>

theorem copy_shares_or_stays_unbound_witness:
  "(1::addr) \<noteq> 2 \<and> IsValid 1 (Create_at 0 (10::nat) 1 fresh_world) \<and>
   wf_pool (pools (Create_at 0 (10::nat) 1 fresh_world) (the (m_slot (refs (Create_at 0 (10::nat) 1 fresh_world) 1)))) \<and>
   UseCount 1 (Create_at 0 (10::nat) 1 fresh_world) = 1 \<and>
   UseCount 2 (SlotRef_copy 2 1 (Create_at 0 (10::nat) 1 fresh_world)) = 2 \<and>
   refs (SlotRef_copy 2 1 (Create_at 0 (10::nat) 1 fresh_world)) 2
     = \<lparr>m_handle = \<lparr>index = 0, generation = 0\<rparr>, m_slot = Some 0\<rparr> \<and>
   \<not> IsValid 1 stale_world \<and> \<not> IsValid 2 (SlotRef_copy 2 1 stale_world) \<and>
   pools (SlotRef_copy 2 1 stale_world) = pools stale_world \<and>
   map_option (\<lambda>w. UseCount 2 w)
     (copy_assign quiet 2 1 (Create_at 0 11 2 (Create_at 0 (10::nat) 1 fresh_world))) = Some 2 \<and>
   map_option (\<lambda>w. IsValidHandle (pools w 0) \<lparr>index = 1, generation = 0\<rparr>)
     (copy_assign quiet 2 1 (Create_at 0 11 2 (Create_at 0 (10::nat) 1 fresh_world))) = Some False"
  using copy_shares_or_stays_unbound[of 2 1 "Create_at 0 (10::nat) 1 fresh_world" quiet]
    copy_shares_or_stays_unbound[of 2 1 stale_world quiet]
    copy_shares_or_stays_unbound[of 2 1 "Create_at 0 11 2 (Create_at 0 (10::nat) 1 fresh_world)" quiet]
  by (simp add: stale_world_eq Create_at_def fresh_world_def SlotRef_copy_def AddRef_if_valid_def
      copy_assign_def Release_def UseCount_def IsValid_def GetRefCount_def wf_pool_def
      SlotRef_empty_def eval_defs)

text \<open>
  C7 as stated fails where the source is bound but stale, as every reference is that
  outlives \<^verbatim>\<open>Clear()\<close>: the copy, constructed or assigned, is not the empty reference but
  carries the pool pointer and the stale handle of the source.
\<close>

theorem copy_of_stale_counterexample:
  "\<not> IsValid 1 stale_world \<and>
   refs (SlotRef_copy 2 1 stale_world) 2
      = \<lparr>m_handle = \<lparr>index = 0, generation = 0\<rparr>, m_slot = Some 0\<rparr> \<and>
   m_slot (refs (SlotRef_copy 2 1 stale_world) 2) \<noteq> None \<and>
   m_handle (refs (SlotRef_copy 2 1 stale_world) 2) \<noteq> Invalid \<and>
   refs (SlotRef_copy 2 1 stale_world) 2 \<noteq> SlotRef_empty \<and>
   map_option (\<lambda>w. refs w 3) (copy_assign quiet 3 1 stale_world)
      = Some \<lparr>m_handle = \<lparr>index = 0, generation = 0\<rparr>, m_slot = Some 0\<rparr>"
  by (simp add: stale_world_eq SlotRef_copy_def AddRef_if_valid_def IsValid_def copy_assign_def
      Release_def SlotRef_empty_def Invalid_def INVALID_INDEX_def IsValidHandle_def empty_pool_def)

subsection \<open>ShrinkToFit\<close>



subsection \<open>Destroy callbacks\<close>

text \<open>
  C9 says that during every removal of a slot the stored callback is cleared before it is
  called, so that a removal re-entered from inside the callback cannot call it a second
  time. The code does not: \<^verbatim>\<open>RemoveInternal\<close> calls the callback and sets its entry to
  \<^verbatim>\<open>nullptr\<close> in the next statement, and marks the slot dead only after that. Callback 7 of the
  only element copies a reference to its own element and drops the copy, once. The release
  of the last reference calls 7; the drop inside it finds the handle still valid and the
  callback still stored and removes the slot, calling 7 again; the outer removal then
  frees the slot a second time. The calls are 7, 7, the generation is 2, the position
  is in the free list twice and the count of live elements has wrapped below zero; the next
  two calls of \<^verbatim>\<open>Create\<close> return the same handle.
\<close>

theorem release_calls_hook_twice:
  "IsValidHandle one_hooked \<lparr>index = 0, generation = 0\<rparr> \<and>
   GetRefCount one_hooked \<lparr>index = 0, generation = 0\<rparr> = 1 \<and>
   m_onDestroyCallbacks one_hooked = [Some 7] \<and> fired one_hooked = [] \<and>
   ReleaseRef (reenter \<lparr>index = 0, generation = 0\<rparr> (Suc 0)) \<lparr>index = 0, generation = 0\<rparr> one_hooked
     = Some \<lparr>m_data = [10], m_generations = [2], m_alive = [False], m_refCounts = [0],
         m_onDestroyCallbacks = [None], m_freeList = [0, 0],
         m_count = - 1, m_maxCapacity = 0, fired = [(0, 7), (0, 7)]\<rparr> \<and>
   map_option (\<lambda>s. (fst (Create 0 20 s), fst (Create 0 21 (snd (Create 0 20 s)))))
     (ReleaseRef (reenter \<lparr>index = 0, generation = 0\<rparr> (Suc 0)) \<lparr>index = 0, generation = 0\<rparr>
        one_hooked)
     = Some (\<lparr>m_handle = \<lparr>index = 0, generation = 2\<rparr>, m_slot = Some 0\<rparr>,
             \<lparr>m_handle = \<lparr>index = 0, generation = 2\<rparr>, m_slot = Some 0\<rparr>)"
proof -
  have r: "ReleaseRef (reenter \<lparr>index = 0, generation = 0\<rparr> (Suc 0)) \<lparr>index = 0, generation = 0\<rparr>
       one_hooked
     = Some \<lparr>m_data = [10], m_generations = [2], m_alive = [False], m_refCounts = [0],
         m_onDestroyCallbacks = [None], m_freeList = [0, 0],
         m_count = - 1, m_maxCapacity = 0, fired = [(0, 7), (0, 7)]\<rparr>"
    by (simp add: one_hooked_eq eval_defs)
  show ?thesis
    unfolding r
    by (simp add: one_hooked_eq GetRefCount_def eval_defs)
qed

text \<open>
  The order of the two statements in general: when the last reference to a slot with a
  callback is released, the callback runs in a state in which it is still stored, the
  handle is still valid and the reference count is 0, and \<^verbatim>\<open>Clear\<close> too calls a callback while
  it is still stored. A callback that does not operate on the pool is called exactly once
  by the release, and the entry is empty and the handle invalid afterwards.
\<close>

lemma hook_called_while_stored:
  "wf_pool s \<Longrightarrow> IsValidHandle s h \<Longrightarrow> m_refCounts s ! unat (index h) = 1 \<Longrightarrow>
   m_onDestroyCallbacks s ! unat (index h) = Some cb \<Longrightarrow>
   (let i = unat (index h);
        mid = s\<lparr>m_refCounts := (m_refCounts s)[i := 0], fired := fired s @ [(i, cb)]\<rparr> in
      m_onDestroyCallbacks mid ! i = Some cb \<and> IsValidHandle mid h \<and> GetRefCount mid h = 0 \<and>
      (\<forall>run. ReleaseRef run h s = Option.bind (run cb mid) (\<lambda>s'. Some (after_hook h s'))) \<and>
      ReleaseRef quiet h s = Some (after_hook h mid) \<and>
      fired (after_hook h mid) = fired s @ [(i, cb)] \<and>
      m_onDestroyCallbacks (after_hook h mid) ! i = None \<and>
      \<not> IsValidHandle (after_hook h mid) h \<and>
      (\<forall>run. Clear_loop run i s
         = Option.bind (run cb (s\<lparr>fired := fired s @ [(i, cb)]\<rparr>)) (Clear_loop run (Suc i))))"
proof -
  assume wf: "wf_pool s" and v: "IsValidHandle s h" and rc: "m_refCounts s ! unat (index h) = 1"
    and cb: "m_onDestroyCallbacks s ! unat (index h) = Some cb"
  let ?i = "unat (index h)"
  let ?s1 = "s\<lparr>m_refCounts := (m_refCounts s)[?i := 0]\<rparr>"
  let ?mid = "s\<lparr>m_refCounts := (m_refCounts s)[?i := 0], fired := fired s @ [(?i, cb)]\<rparr>"
  from wf v have rng: "?i < length (m_data s)" "?i < length (m_refCounts s)"
    "?i < length (m_onDestroyCallbacks s)" "?i < length (m_alive s)" "m_alive s ! ?i"
    by (simp_all add: wf_pool_def IsValidHandle_iff)
  have mid: "?s1\<lparr>fired := fired ?s1 @ [(?i, cb)]\<rparr> = ?mid" by simp
  have rel: "ReleaseRef run h s = Option.bind (run cb ?mid) (\<lambda>s'. Some (after_hook h s'))" for run
  proof -
    have "ReleaseRef run h s = RemoveInternal run h ?s1"
      using v rc rng by (simp add: ReleaseRef_def Let_def)
    also have "\<dots> = Option.bind (run cb (?s1\<lparr>fired := fired ?s1 @ [(?i, cb)]\<rparr>))
        (\<lambda>s'. Some (after_hook h s'))"
      by (rule RemoveInternal_hook) (simp add: cb)
    finally show ?thesis by (simp only: mid)
  qed
  have loop: "Clear_loop run ?i s
      = Option.bind (run cb (s\<lparr>fired := fired s @ [(?i, cb)]\<rparr>)) (Clear_loop run (Suc ?i))" for run
    using rng cb by (subst Clear_loop.simps) (simp add: invoke_def)
  have q: "ReleaseRef quiet h s = Some (after_hook h ?mid)"
    by (simp add: rel quiet_def)
  show ?thesis
    unfolding Let_def
    using v rng cb rel loop q
    by (simp add: IsValidHandle_iff GetRefCount_def after_hook_def)
qed

text \<open>The release of the only reference to an element with callback 7 that leaves the pool alone.\<close>

lemma release_of_one_hooked:
  "wf_pool one_hooked \<and> IsValidHandle one_hooked \<lparr>index = 0, generation = 0\<rparr> \<and>
   m_refCounts one_hooked ! unat (index \<lparr>index = 0, generation = 0\<rparr>) = 1 \<and>
   m_onDestroyCallbacks one_hooked ! unat (index \<lparr>index = 0, generation = 0\<rparr>) = Some 7 \<and>
   ReleaseRef quiet \<lparr>index = 0, generation = 0\<rparr> one_hooked
     = Some \<lparr>m_data = [10], m_generations = [1], m_alive = [False], m_refCounts = [0],
         m_onDestroyCallbacks = [None], m_freeList = [0], m_count = 0, m_maxCapacity = 0,
         fired = [(0, 7)]\<rparr>"
  using hook_called_while_stored[of one_hooked "\<lparr>index = 0, generation = 0\<rparr>" 7]
  by (simp add: one_hooked_eq wf_pool_def IsValidHandle_def after_hook_def Let_def quiet_def)

subsection \<open>Self-assignment\<close>

text \<open>
  C10. For every \<^verbatim>\<open>SlotRef\<close> \<open>s\<close>, bound or empty, the self-assignment \<open>s = s\<close>, by copy or by
  move, returns and leaves the whole world unchanged: the handle and pool pointer of \<open>s\<close>,
  every reference count and every pool. So self-assigning the last reference to an element
  does not destroy the element: it is valid afterwards exactly if it was before, with the
  same use count.
\<close>

theorem self_assignment_unchanged:
  "copy_assign run a a w = Some w \<and> move_assign run a a w = Some w \<and>
   IsValid a (the (copy_assign run a a w)) = IsValid a w \<and>
   UseCount a (the (copy_assign run a a w)) = UseCount a w \<and>
   IsValid a (the (move_assign run a a w)) = IsValid a w \<and>
   UseCount a (the (move_assign run a a w)) = UseCount a w"
  by (simp add: copy_assign_def move_assign_def)

end
